theory Spec2Isabelle
  imports Main
begin

section \<open>The Go library functions the generator uses\<close>

text \<open>
  Go strings are byte sequences; they are modelled as \<open>string\<close> (a list of 8-bit
  characters).  The functions of this section are those of Go's \<open>strings\<close> package that
  \<open>gen.go\<close> calls.
\<close>

definition HasPrefix :: "string \<Rightarrow> string \<Rightarrow> bool" where
  "HasPrefix s p = (length p \<le> length s \<and> take (length p) s = p)"

fun Contains :: "string \<Rightarrow> string \<Rightarrow> bool" where
  "Contains [] substr = (substr = [])"
| "Contains (c # cs) substr = (HasPrefix (c # cs) substr \<or> Contains cs substr)"

text \<open>
  \<open>strings.Fields\<close> splits around runs of white space as \<open>unicode.IsSpace\<close> defines it.
  \<open>spaceWidth s\<close> is the number of bytes of the white-space rune that starts \<open>s\<close>, and 0
  when \<open>s\<close> does not start with one: the six ASCII white-space bytes, and the UTF-8
  encodings of U+0085, U+00A0, U+1680, U+2000 to U+200A, U+2028, U+2029, U+202F, U+205F
  and U+3000.  The first byte of each of these encodings is never a continuation byte,
  so looking for them byte by byte finds exactly the runes the decoder finds.
\<close>

definition asciiSpace :: "char \<Rightarrow> bool" where
  "asciiSpace c = (c = CHR 0x09 \<or> c = CHR 0x0A \<or> c = CHR 0x0B \<or> c = CHR 0x0C
                   \<or> c = CHR 0x0D \<or> c = CHR 0x20)"

fun spaceWidth :: "string \<Rightarrow> nat" where
  "spaceWidth [] = 0"
| "spaceWidth [a] = (if asciiSpace a then 1 else 0)"
| "spaceWidth [a, b] =
     (if asciiSpace a then 1
      else if a = CHR 0xC2 \<and> (b = CHR 0x85 \<or> b = CHR 0xA0) then 2 else 0)"
| "spaceWidth (a # b # c # rest) =
     (if asciiSpace a then 1
      else if a = CHR 0xC2 \<and> (b = CHR 0x85 \<or> b = CHR 0xA0) then 2
      else if a = CHR 0xE1 \<and> b = CHR 0x9A \<and> c = CHR 0x80 then 3
      else if a = CHR 0xE2 \<and> b = CHR 0x80 \<and>
              ((0x80 \<le> (of_char c :: nat) \<and> (of_char c :: nat) \<le> 0x8A)
               \<or> c = CHR 0xA8 \<or> c = CHR 0xA9 \<or> c = CHR 0xAF) then 3
      else if a = CHR 0xE2 \<and> b = CHR 0x81 \<and> c = CHR 0x9F then 3
      else if a = CHR 0xE3 \<and> b = CHR 0x80 \<and> c = CHR 0x80 then 3
      else 0)"

text \<open>
  \<open>fieldsFrom cur s\<close> scans \<open>s\<close> with \<open>cur\<close> the bytes of the field being read; a
  white-space rune ends the field, and only non-empty fields are kept.
\<close>

function fieldsFrom :: "string \<Rightarrow> string \<Rightarrow> string list" where
  "fieldsFrom cur [] = (if cur = [] then [] else [cur])"
| "fieldsFrom cur (c # cs) =
     (if spaceWidth (c # cs) = 0 then fieldsFrom (cur @ [c]) cs
      else (if cur = [] then [] else [cur]) @ fieldsFrom [] (drop (spaceWidth (c # cs) - 1) cs))"
  by pat_completeness auto
termination
  by (relation "measure (\<lambda>(cur, s). length s)") auto

definition Fields :: "string \<Rightarrow> string list" where
  "Fields s = fieldsFrom [] s"

text \<open>\<open>strings.Join(elems, sep)\<close>, with the separator as the first argument.\<close>

fun joinWith :: "string \<Rightarrow> string list \<Rightarrow> string" where
  "joinWith sep [] = []"
| "joinWith sep [x] = x"
| "joinWith sep (x # y # ys) = x @ sep @ joinWith sep (y # ys)"

section \<open>The Go library functions the generated runtime uses\<close>

text \<open>
  The functions of Go's \<open>path/filepath\<close> package that the generated runtime calls, as they
  are on Unix: the separator is \<open>/\<close> and there are no volume names.

  \<open>Clean\<close> reads the path from left to right and writes to a buffer \<open>out\<close>; \<open>dotdot\<close> is
  the length of the buffer below which a \<open>..\<close> element must not remove anything.
  \<open>backtrackTo buf dotdot w\<close> is the inner loop of the \<open>..\<close> case: it moves the write index
  \<open>w\<close> down to the last separator.
\<close>

function backtrackTo :: "string \<Rightarrow> nat \<Rightarrow> nat \<Rightarrow> nat" where
  "backtrackTo buf dotdot w =
     (if w > dotdot \<and> buf ! w \<noteq> CHR ''/'' then backtrackTo buf dotdot (w - 1) else w)"
  by pat_completeness auto
termination
  by (relation "measure (\<lambda>(buf, dotdot, w). w)") auto

declare backtrackTo.simps [simp del]

function cleanLoop :: "bool \<Rightarrow> string \<Rightarrow> string \<Rightarrow> nat \<Rightarrow> string" where
  "cleanLoop rooted [] out dotdot = out"
| "cleanLoop rooted (c # cs) out dotdot =
     (if c = CHR ''/'' then cleanLoop rooted cs out dotdot
      else if c = CHR ''.'' \<and> (cs = [] \<or> hd cs = CHR ''/'') then cleanLoop rooted cs out dotdot
      else if c = CHR ''.'' \<and> cs \<noteq> [] \<and> hd cs = CHR ''.''
              \<and> (tl cs = [] \<or> hd (tl cs) = CHR ''/'') then
        (if length out > dotdot
         then cleanLoop rooted (tl cs)
                (take (backtrackTo out dotdot (length out - 1)) out) dotdot
         else if \<not> rooted
         then cleanLoop rooted (tl cs)
                ((if length out > 0 then out @ ''/'' else out) @ ''..'')
                (length ((if length out > 0 then out @ ''/'' else out) @ ''..''))
         else cleanLoop rooted (tl cs) out dotdot)
      else cleanLoop rooted (dropWhile (\<lambda>x. x \<noteq> CHR ''/'') cs)
             ((if (rooted \<and> length out \<noteq> 1) \<or> (\<not> rooted \<and> length out \<noteq> 0)
               then out @ ''/'' else out)
              @ c # takeWhile (\<lambda>x. x \<noteq> CHR ''/'') cs)
             dotdot)"
  by pat_completeness auto
termination
proof (relation "measure (\<lambda>(rooted, path, out, dotdot). length path)")
  show "wf (measure (\<lambda>(rooted, path, out, dotdot). length path))"
    by simp
next
  fix rooted :: bool and c :: char and cs out :: string and dotdot :: nat
  show "((rooted, cs, out, dotdot), (rooted, c # cs, out, dotdot))
        \<in> measure (\<lambda>(rooted, path, out, dotdot). length path)"
    by simp
  then show "((rooted, cs, out, dotdot), (rooted, c # cs, out, dotdot))
        \<in> measure (\<lambda>(rooted, path, out, dotdot). length path)" .
  have shorter: "((rooted, tl cs, out', dotdot'), (rooted, c # cs, out, dotdot))
        \<in> measure (\<lambda>(rooted, path, out, dotdot). length path)" for out' dotdot'
    by simp
  show "((rooted, tl cs, take (backtrackTo out dotdot (length out - 1)) out, dotdot),
         (rooted, c # cs, out, dotdot))
        \<in> measure (\<lambda>(rooted, path, out, dotdot). length path)"
    by (rule shorter)
  show "((rooted, tl cs, (if 0 < length out then out @ ''/'' else out) @ ''..'',
          length ((if 0 < length out then out @ ''/'' else out) @ ''..'')),
         (rooted, c # cs, out, dotdot))
        \<in> measure (\<lambda>(rooted, path, out, dotdot). length path)"
    by (rule shorter)
  show "((rooted, tl cs, out, dotdot), (rooted, c # cs, out, dotdot))
        \<in> measure (\<lambda>(rooted, path, out, dotdot). length path)"
    by (rule shorter)
  have "length (dropWhile (\<lambda>x. x \<noteq> CHR ''/'') cs) \<le> length cs"
    by (rule length_dropWhile_le)
  then have dropped: "((rooted, dropWhile (\<lambda>x. x \<noteq> CHR ''/'') cs, out', dotdot),
         (rooted, c # cs, out, dotdot))
        \<in> measure (\<lambda>(rooted, path, out, dotdot). length path)" for out'
    by simp
  show "((rooted, dropWhile (\<lambda>x. x \<noteq> CHR ''/'') cs,
          (if (rooted \<and> length out \<noteq> 1) \<or> (\<not> rooted \<and> length out \<noteq> 0)
           then out @ ''/'' else out) @ c # takeWhile (\<lambda>x. x \<noteq> CHR ''/'') cs, dotdot),
         (rooted, c # cs, out, dotdot))
        \<in> measure (\<lambda>(rooted, path, out, dotdot). length path)"
    by (rule dropped)
qed

declare cleanLoop.simps [simp del]

definition Clean :: "string \<Rightarrow> string" where
  "Clean path =
     (if path = [] then ''.''
      else
        let rooted = (hd path = CHR ''/'');
            out = (if rooted then cleanLoop True (tl path) ''/'' 1
                   else cleanLoop False path [] 0)
        in if out = [] then ''.'' else out)"

text \<open>\<open>Dir\<close> cleans the path up to and including its last separator.\<close>

definition Dir :: "string \<Rightarrow> string" where
  "Dir path = Clean (rev (dropWhile (\<lambda>x. x \<noteq> CHR ''/'') (rev path)))"

text \<open>\<open>Base\<close> is the last element of the path, after the trailing separators are removed.\<close>

definition Base :: "string \<Rightarrow> string" where
  "Base path =
     (if path = [] then ''.''
      else
        let stripped = rev (dropWhile (\<lambda>x. x = CHR ''/'') (rev path));
            element = rev (takeWhile (\<lambda>x. x \<noteq> CHR ''/'') (rev stripped))
        in if element = [] then ''/'' else element)"

text \<open>\<open>Join\<close> drops the leading empty elements, joins the rest with the separator and cleans.\<close>

fun Join :: "string list \<Rightarrow> string" where
  "Join [] = []"
| "Join (e # es) = (if e \<noteq> [] then Clean (joinWith ''/'' (e # es)) else Join es)"

text \<open>
  \<open>Rel\<close>.  The loop walks over the leading elements that the cleaned base and the
  cleaned target have in common, with \<open>base[b0:bi]\<close> and \<open>targ[t0:ti]\<close> the elements it
  compares.  \<open>relLoop b t\<close> has the parts of the base and of the target not yet walked
  over (\<open>base[b0:]\<close> and \<open>targ[t0:]\<close> at the head of the loop), and returns
  \<open>base[b0:bi]\<close>, \<open>base[b0:]\<close> and \<open>targ[t0:]\<close> as they are when the loop ends: when it
  ends by its condition, \<open>b0 = bi\<close> and the first is empty; when it ends by \<open>break\<close>, the
  first is the element of the base at which the two differ.
\<close>

definition afterElem :: "string \<Rightarrow> string" where
  "afterElem s =
     (if dropWhile (\<lambda>x. x \<noteq> CHR ''/'') s \<noteq> []
      then tl (dropWhile (\<lambda>x. x \<noteq> CHR ''/'') s)
      else [])"

function relLoop :: "string \<Rightarrow> string \<Rightarrow> string \<times> string \<times> string" where
  "relLoop b t =
     (if b = [] \<or> t = [] then ([], b, t)
      else if takeWhile (\<lambda>x. x \<noteq> CHR ''/'') t \<noteq> takeWhile (\<lambda>x. x \<noteq> CHR ''/'') b
      then (takeWhile (\<lambda>x. x \<noteq> CHR ''/'') b, b, t)
      else relLoop (afterElem b) (afterElem t))"
  by pat_completeness auto
termination
proof (relation "measure (\<lambda>(b, t). length b)")
  show "wf (measure (\<lambda>(b, t). length b))"
    by simp
next
  fix b t :: string
  assume "\<not> (b = [] \<or> t = [])"
  then obtain x xs where b: "b = x # xs"
    by (cases b) auto
  have "length (afterElem b) < length b"
  proof (cases "x = CHR ''/''")
    case True
    with b show ?thesis by (simp add: afterElem_def)
  next
    case False
    have "length (dropWhile (\<lambda>x. x \<noteq> CHR ''/'') xs) \<le> length xs"
      by (rule length_dropWhile_le)
    with b False show ?thesis
      by (auto simp: afterElem_def)
  qed
  then show "((afterElem b, afterElem t), (b, t)) \<in> measure (\<lambda>(b, t). length b)"
    by simp
qed

declare relLoop.simps [simp del]

definition Rel :: "string \<Rightarrow> string \<Rightarrow> string + string" where
  "Rel basepath targpath =
     (let base = Clean basepath;
          targ = Clean targpath
      in if targ = base then Inr ''.''
         else
           let base = (if base = ''.'' then [] else base);
               baseSlashed = (length base > 0 \<and> hd base = CHR ''/'');
               targSlashed = (length targ > 0 \<and> hd targ = CHR ''/'')
           in if baseSlashed \<noteq> targSlashed
              then Inl (''Rel: can't make '' @ targpath @ '' relative to '' @ basepath)
              else
                (case relLoop base targ of
                   (elem, brest, trest) \<Rightarrow>
                     if elem = ''..''
                     then Inl (''Rel: can't make '' @ targpath @ '' relative to '' @ basepath)
                     else if brest \<noteq> []
                     then Inr (''..''
                               @ concat (replicate (count_list brest (CHR ''/'')) ''/..'')
                               @ (if trest \<noteq> [] then ''/'' @ trest else []))
                     else Inr trest))"

text \<open>
  The vocabulary of the statements about \<open>Clean\<close> and \<open>Rel\<close>: a path element that is not
  empty, holds no separator and is not \<open>..\<close>, and the rooted path made of a list of
  elements.
\<close>

definition plainElem :: "string \<Rightarrow> bool" where
  "plainElem e = (e \<noteq> [] \<and> CHR ''/'' \<notin> set e \<and> e \<noteq> ''..'')"

definition rootedPath :: "string list \<Rightarrow> string" where
  "rootedPath es = ''/'' @ joinWith ''/'' es"

section \<open>The generator: one configuration line and its declaration\<close>

text \<open>\<open>Define\<close> is the struct holding the words of one configuration line.\<close>

record Define =
  Words :: "string list"

definition parseLine :: "string \<Rightarrow> Define" where
  "parseLine s = \<lparr>Words = Fields s\<rparr>"

text \<open>The six names of the first \<open>case\<close> of the \<open>switch\<close> in \<open>WriteLine\<close>.\<close>

definition relocatableNames :: "string list" where
  "relocatableNames =
     [''BINDIR'', ''LIBEXECDIR'', ''SYSCONFDIR'', ''SESSIONDIR'',
      ''APPTAINER_CONFDIR'', ''PLUGIN_ROOTDIR'']"

text \<open>
  The right-hand side \<open>s\<close> that \<open>WriteLine\<close> builds: \<open>d.Words[2]\<close>, then \<open>" + " + w\<close> for
  every \<open>w\<close> of \<open>d.Words[3:]\<close> when there are more than three words.
\<close>

definition valueExpr :: "Define \<Rightarrow> string" where
  "valueExpr d =
     (if length (Words d) > 3
      then foldl (\<lambda>s w. s @ '' + '' @ w) (Words d ! 2) (drop 3 (Words d))
      else Words d ! 2)"

text \<open>
  \<open>WriteLine\<close> renders one declaration.  \<open>d.Words[2]\<close> is read first, so a \<open>Define\<close> of
  fewer than three words makes the method panic (index out of range): \<open>None\<close>.
\<close>

definition WriteLine :: "Define \<Rightarrow> string option" where
  "WriteLine d =
     (if length (Words d) < 3 then None
      else
        let s = valueExpr d;
            name = Words d ! 1
        in if name \<in> set relocatableNames
           then Some (''var'' @ '' '' @ name @ '' = relocatePath('' @ s @ '')'')
           else if name = ''APPTAINER_SUID_INSTALL''
           then Some (''var'' @ '' '' @ name @ '' = isSuidInstall()'')
           else if Contains s ''APPTAINER_CONFDIR''
           then Some (''var'' @ '' '' @ name @ '' = '' @ s)
           else Some (''const'' @ '' '' @ name @ '' = '' @ s))"

text \<open>
  The vocabulary of the statements below: the keyword a rendered declaration starts
  with.
\<close>

definition isVarDecl :: "string \<Rightarrow> bool" where
  "isVarDecl line = HasPrefix line ''var ''"

definition isConstDecl :: "string \<Rightarrow> bool" where
  "isConstDecl line = HasPrefix line ''const ''"

section \<open>The generator: \<open>main\<close>\<close>

text \<open>
  What \<open>main\<close> reads from outside the program: the error of \<open>os.Create("config.go")\<close>
  (\<open>None\<close> when the file is created), the argument vector \<open>os.Args\<close>, \<open>os.ReadFile\<close> as
  a function of the path (an error, or the contents as the sequence of lines that the
  \<open>bufio.Scanner\<close> yields, one \<open>s.Text()\<close> for each successful \<open>s.Scan()\<close>), the
  environment variable \<open>GO_BUILD_TAGS\<close> (\<open>None\<close> when unset), and the error of writing to
  the output file while the template is executed (\<open>None\<close> when every write succeeds).
\<close>

record world =
  createErr :: "string option"
  args :: "string list"
  readFile :: "string \<Rightarrow> string + string list"
  buildTagsEnv :: "string option"
  writeErr :: "string option"

text \<open>\<open>os.Getenv\<close> returns the empty string for a variable that is not set.\<close>

definition Getenv :: "string option \<Rightarrow> string" where
  "Getenv v = (case v of None \<Rightarrow> [] | Some s \<Rightarrow> s)"

text \<open>
  The output file, as far as the entries decide it: the prefix that replaces
  \<open>{{.Prefix}}\<close> in the fixed runtime section, and the declaration lines that the
  \<open>range\<close> over \<open>.Defines\<close> writes, in order.
\<close>

record generated =
  genPrefix :: string
  genLines :: "string list"

text \<open>
  How a run of \<open>main\<close> ends: it returns after the template was executed; it prints an
  error with \<open>fmt.Println\<close> and returns; it calls \<open>sylog.Fatalf\<close>; or it panics.
\<close>

datatype outcome =
    Generated generated
  | Printed string
  | Fatal string
  | Panicked

datatype status = ExitZero | ExitNonZero

text \<open>
  Modelled from the spec: \<open>sylog.Fatalf\<close> (package \<open>pkg/sylog\<close> is not among the sources).
  The spec has a fatal condition terminate the process immediately with a non-zero
  status and a diagnostic message; that is the status of \<open>Fatal\<close> here.  The other
  three are Go's own: returning from \<open>main\<close> exits with status 0, an unrecovered panic
  with a non-zero status.
\<close>

fun exitStatus :: "outcome \<Rightarrow> status" where
  "exitStatus (Generated g) = ExitZero"
| "exitStatus (Printed e) = ExitZero"
| "exitStatus (Fatal msg) = ExitNonZero"
| "exitStatus Panicked = ExitNonZero"

text \<open>
  The scanning loop of \<open>main\<close>, with the variables \<open>prefix\<close> and \<open>header\<close> it updates.
  \<open>Inl\<close> is the call of \<open>sylog.Fatalf\<close> inside the loop.
\<close>

fun scanLoop :: "string list \<Rightarrow> string \<Rightarrow> Define list \<Rightarrow> string + (string \<times> Define list)" where
  "scanLoop [] prefix header = Inr (prefix, header)"
| "scanLoop (l # ls) prefix header =
     (let d = parseLine l in
      if length (Words d) > 2 \<and> Words d ! 0 = ''#define'' then
        if Words d ! 1 = ''PREFIX'' then
          if length (Words d) \<noteq> 3 then Inl ''Expected PREFIX to contain 3 elements''
          else scanLoop ls (Words d ! 2) (header @ [d])
        else scanLoop ls prefix (header @ [d])
      else scanLoop ls prefix header)"

text \<open>The entry that \<open>main\<close> appends for a non-empty \<open>GO_BUILD_TAGS\<close>.\<close>

definition buildTagsDefine :: "string \<Rightarrow> Define" where
  "buildTagsDefine goBuildTags =
     \<lparr>Words = [''#define'', ''GO_BUILD_TAGS'', [CHR 0x60] @ goBuildTags @ [CHR 0x60]]\<rparr>"

text \<open>
  The extraction part of \<open>main\<close>: the loop from \<open>prefix = ""\<close> and an empty \<open>header\<close>, the
  test for a missing \<open>PREFIX\<close>, and the build-tags entry.  The result is the pair of
  \<open>prefix\<close> and \<open>header\<close> that the rest of \<open>main\<close> uses.
\<close>

definition extractEntries :: "string list \<Rightarrow> string option \<Rightarrow> string + (string \<times> Define list)" where
  "extractEntries lines tagsEnv =
     (case scanLoop lines [] [] of
        Inl msg \<Rightarrow> Inl msg
      | Inr (prefix, header) \<Rightarrow>
          if prefix = [] then Inl ''Failed to find value of PREFIX''
          else if Getenv tagsEnv \<noteq> []
               then Inr (prefix, header @ [buildTagsDefine (Getenv tagsEnv)])
               else Inr (prefix, header))"

text \<open>
  Executing the template: the declaration lines are the \<open>WriteLine\<close> of each entry; a
  panic of the method is recovered by the template engine and returned as an error, as is
  an error of the writer.
\<close>

fun renderAll :: "Define list \<Rightarrow> string list option" where
  "renderAll [] = Some []"
| "renderAll (d # ds) =
     (case WriteLine d of
        None \<Rightarrow> None
      | Some line \<Rightarrow> (case renderAll ds of None \<Rightarrow> None | Some rest \<Rightarrow> Some (line # rest)))"

definition Execute :: "string option \<Rightarrow> string \<Rightarrow> Define list \<Rightarrow> string + generated" where
  "Execute werr prefix defines =
     (case werr of
        Some e \<Rightarrow> Inl e
      | None \<Rightarrow>
          (case renderAll defines of
             None \<Rightarrow> Inl ''error calling WriteLine''
           | Some ls \<Rightarrow> Inr \<lparr>genPrefix = prefix, genLines = ls\<rparr>))"

text \<open>
  \<open>main\<close>.  \<open>os.Args[1]\<close> panics when there is no argument, and the slice expression
  \<open>prefix[1 : len(prefix)-1]\<close> panics when its low bound 1 is above its high bound.
\<close>

definition main :: "world \<Rightarrow> outcome" where
  "main w =
     (case createErr w of
        Some e \<Rightarrow> Printed e
      | None \<Rightarrow>
          if length (args w) < 2 then Panicked
          else
            (case readFile w (args w ! 1) of
               Inl e \<Rightarrow> Printed e
             | Inr lines \<Rightarrow>
                 (case extractEntries lines (buildTagsEnv w) of
                    Inl msg \<Rightarrow> Fatal msg
                  | Inr (prefix, header) \<Rightarrow>
                      if int (length prefix) - 1 < 1 then Panicked
                      else
                        (case Execute (writeErr w)
                                (take (length prefix - 1 - 1) (drop 1 prefix)) header of
                           Inl e \<Rightarrow> Printed e
                         | Inr g \<Rightarrow> Generated g))))"

text \<open>
  The vocabulary of the statements below: a line is recognized as an entry when it has
  more than two words and the first is \<open>#define\<close>; \<open>entries\<close> are the recognized lines in
  input order; \<open>quoted\<close> puts a string between double quotes, as the values of the input
  header are written.
\<close>

definition recognized :: "Define \<Rightarrow> bool" where
  "recognized d = (length (Words d) > 2 \<and> Words d ! 0 = ''#define'')"

definition entries :: "string list \<Rightarrow> Define list" where
  "entries lines = filter recognized (map parseLine lines)"

definition quoted :: "string \<Rightarrow> string" where
  "quoted s = [CHR 0x22] @ s @ [CHR 0x22]"

text \<open>
  More vocabulary: the value of the last \<open>PREFIX\<close> entry of a list of entries (the value
  \<open>prefix\<close> has after the loop), a \<open>PREFIX\<close> entry that has not exactly three words, and
  the entries that the environment variable adds (one when it is set and not empty).
\<close>

definition lastPrefix :: "string \<Rightarrow> Define list \<Rightarrow> string" where
  "lastPrefix prefix ds =
     foldl (\<lambda>p d. if Words d ! 1 = ''PREFIX'' then Words d ! 2 else p) prefix ds"

definition malformedPrefix :: "Define \<Rightarrow> bool" where
  "malformedPrefix d = (Words d ! 1 = ''PREFIX'' \<and> length (Words d) \<noteq> 3)"

fun tagEntries :: "string option \<Rightarrow> Define list" where
  "tagEntries None = []"
| "tagEntries (Some []) = []"
| "tagEntries (Some (c # cs)) = [buildTagsDefine (c # cs)]"

text \<open>Concrete inputs, for evaluating the definitions: a header and a run that reads it.\<close>

definition sampleLines :: "string list" where
  "sampleLines =
     [''/* generated by the build */'',
      ''#define PREFIX '' @ quoted ''/usr'',
      ''#define BINDIR '' @ quoted ''/usr/bin'',
      ''#define FOO 1'',
      ''#define FOO 1'',
      ''#define BAR'',
      ''#undef A B C'']"

definition sampleWorld :: "string list \<Rightarrow> world" where
  "sampleWorld lines =
     \<lparr>createErr = None, args = [''gen'', ''config.h''], readFile = (\<lambda>path. Inr lines),
      buildTagsEnv = None, writeErr = None\<rparr>"

section \<open>The generated runtime\<close>

text \<open>
  The functions \<open>getPrefix\<close>, \<open>isSuidInstall\<close> and \<open>relocatePath\<close> are the text of the
  template; the generated program has them with \<open>{{.Prefix}}\<close> replaced by the build-time
  prefix, which is the argument \<open>Prefix\<close> of the definitions here.  The template writes
  the prefix between the double quotes of a Go string literal as it is, so \<open>Prefix\<close> is
  the value of that literal for a prefix without a double quote, a backslash or a line
  break.

  What the generated program reads from the operating system: the result of
  \<open>os.Executable()\<close> (an error or the path), and whether \<open>os.Stat\<close> of a path returns no
  error.
\<close>

record runtime =
  executable :: "string + string"
  statOK :: "string \<Rightarrow> bool"

text \<open>
  The package-level variables.  A \<open>sync.Once\<close> is the flag that its function has run;
  \<open>Do\<close> runs the function when the flag is not set, and sets it.
\<close>

record vars =
  prefixOnce :: bool
  installPrefix :: string
  isSuidOnce :: bool
  suidInstall :: int

definition initialVars :: vars where
  "initialVars = \<lparr>prefixOnce = False, installPrefix = [], isSuidOnce = False, suidInstall = 0\<rparr>"

text \<open>The function that \<open>getPrefix\<close> hands to \<open>prefixOnce.Do\<close>: the value it assigns.\<close>

definition discoverPrefix :: "string \<Rightarrow> runtime \<Rightarrow> string" where
  "discoverPrefix Prefix rt =
     (case executable rt of
        Inl err \<Rightarrow> Prefix
      | Inr executablePath \<Rightarrow>
          let bin = Dir executablePath;
              base = Base executablePath
          in if base = ''apptainer'' then Dir bin
             else if base = ''starter'' \<or> base = ''starter-suid'' then Dir (Dir (Dir bin))
             else Prefix)"

definition getPrefix :: "string \<Rightarrow> runtime \<Rightarrow> vars \<Rightarrow> string \<times> vars" where
  "getPrefix Prefix rt v =
     (let v1 = (if prefixOnce v then v
                else v\<lparr>installPrefix := discoverPrefix Prefix rt, prefixOnce := True\<rparr>)
      in (installPrefix v1, v1))"

definition isSuidInstall :: "string \<Rightarrow> runtime \<Rightarrow> vars \<Rightarrow> int \<times> vars" where
  "isSuidInstall Prefix rt v =
     (let v2 = (if isSuidOnce v then v
                else
                  (case getPrefix Prefix rt v of
                     (prefix, v1) \<Rightarrow>
                       let path = prefix @ ''/libexec/apptainer/bin/starter-suid''
                       in (if statOK rt path then v1\<lparr>suidInstall := 1\<rparr> else v1)
                            \<lparr>isSuidOnce := True\<rparr>))
      in (suidInstall v2, v2))"

text \<open>
  \<open>relocatePath\<close> returns the path (\<open>Inr\<close>) or ends the process in \<open>sylog.Fatalf\<close> (\<open>Inl\<close>,
  with the message), and the variables as the call leaves them.
\<close>

definition relocatePath :: "string \<Rightarrow> runtime \<Rightarrow> vars \<Rightarrow> string \<Rightarrow> (string + string) \<times> vars" where
  "relocatePath Prefix rt v original =
     (if Prefix = [] \<or> Prefix = ''/'' then (Inr original, v)
      else if \<not> HasPrefix original Prefix
              \<and> \<not> (HasPrefix original ''/etc/apptainer'' \<or> HasPrefix original ''/var/apptainer'')
      then (Inr original, v)
      else
        let rootPrefix = (\<not> HasPrefix original Prefix) in
        (case getPrefix Prefix rt v of
           (prefix, v1) \<Rightarrow>
             if prefix = Prefix then (Inr original, v1)
             else
               (case isSuidInstall Prefix rt v1 of
                  (suid, v2) \<Rightarrow>
                    if suid = 1 then (Inl ''Relocation not allowed with starter-suid'', v2)
                    else
                      (case (if rootPrefix then Rel ''/'' original else Rel Prefix original) of
                         Inl err \<Rightarrow> (Inl err, v2)
                       | Inr relativePath \<Rightarrow> (Inr (Join [prefix, relativePath]), v2)))))"

text \<open>Concrete runtimes, for evaluating the definitions.\<close>

definition installedAt :: "string \<Rightarrow> bool \<Rightarrow> runtime" where
  "installedAt root withSuid =
     \<lparr>executable = Inr (root @ ''/bin/apptainer''),
      statOK = (\<lambda>path. withSuid \<and> path = root @ ''/libexec/apptainer/bin/starter-suid'')\<rparr>"

section \<open>Facts about the library functions\<close>

lemma HasPrefix_append: "HasPrefix (p @ s) p"
  by (simp add: HasPrefix_def)

lemma HasPrefix_iff_append: "HasPrefix s p \<longleftrightarrow> (\<exists>r. s = p @ r)"
proof
  assume "HasPrefix s p"
  then have "s = p @ drop (length p) s"
    by (metis HasPrefix_def append_take_drop_id)
  then show "\<exists>r. s = p @ r" ..
next
  assume "\<exists>r. s = p @ r"
  then show "HasPrefix s p"
    by (auto simp: HasPrefix_def)
qed

text \<open>\<open>Contains\<close> is the contiguous-substring relation.\<close>

lemma Contains_iff_substring:
  "Contains s substr \<longleftrightarrow> (\<exists>before after. s = before @ substr @ after)"
proof (induction s)
  case Nil
  show ?case by auto
next
  case (Cons c cs)
  show ?case
  proof
    assume "Contains (c # cs) substr"
    then consider "HasPrefix (c # cs) substr" | "Contains cs substr"
      by auto
    then show "\<exists>before after. c # cs = before @ substr @ after"
    proof cases
      case 1
      then obtain r where "c # cs = substr @ r"
        by (auto simp: HasPrefix_iff_append)
      then have "c # cs = [] @ substr @ r" by simp
      then show ?thesis by blast
    next
      case 2
      with Cons.IH obtain b a where "cs = b @ substr @ a" by auto
      then have "c # cs = (c # b) @ substr @ a" by simp
      then show ?thesis by blast
    qed
  next
    assume "\<exists>before after. c # cs = before @ substr @ after"
    then obtain b a where eq: "c # cs = b @ substr @ a" by auto
    show "Contains (c # cs) substr"
    proof (cases b)
      case Nil
      with eq have "HasPrefix (c # cs) substr"
        by (auto simp: HasPrefix_iff_append)
      then show ?thesis by simp
    next
      case (Cons x b')
      with eq have "cs = b' @ substr @ a" by simp
      with Cons.IH have "Contains cs substr" by auto
      then show ?thesis by simp
    qed
  qed
qed

lemma joinWith_append_head: "joinWith sep ((a @ b) # ys) = a @ joinWith sep (b # ys)"
  by (cases ys) simp_all

lemma foldl_joinWith:
  "foldl (\<lambda>s w. s @ sep @ w) x ys = joinWith sep (x # ys)"
proof (induction ys arbitrary: x)
  case Nil
  show ?case by simp
next
  case (Cons y ys)
  have "foldl (\<lambda>s w. s @ sep @ w) (x @ sep @ y) ys = joinWith sep ((x @ sep @ y) # ys)"
    by (rule Cons.IH)
  also have "\<dots> = x @ joinWith sep ((sep @ y) # ys)"
    by (rule joinWith_append_head)
  also have "\<dots> = x @ sep @ joinWith sep (y # ys)"
    by (simp add: joinWith_append_head)
  finally show ?case by simp
qed

text \<open>The right-hand side is the value tokens (all words after the name) joined by \<open>" + "\<close>.\<close>

lemma valueExpr_joinWith:
  assumes "3 \<le> length (Words d)"
  shows "valueExpr d = joinWith '' + '' (drop 2 (Words d))"
proof -
  have "2 < length (Words d)"
    using assms by simp
  then have "Words d ! 2 # drop (Suc 2) (Words d) = drop 2 (Words d)"
    by (rule Cons_nth_drop_Suc)
  then have split: "drop 2 (Words d) = Words d ! 2 # drop 3 (Words d)"
    by (simp add: eval_nat_numeral)
  show ?thesis
  proof (cases "length (Words d) > 3")
    case True
    then show ?thesis
      using foldl_joinWith [of "'' + ''" "Words d ! 2" "drop 3 (Words d)"]
      by (simp add: valueExpr_def split)
  next
    case False
    with assms have "drop 3 (Words d) = []" by simp
    with False show ?thesis
      by (simp add: valueExpr_def split)
  qed
qed

section \<open>The declarations that \<open>WriteLine\<close> renders\<close>

lemma var_prefix: "isVarDecl (''var'' @ '' '' @ rest) \<and> \<not> isConstDecl (''var'' @ '' '' @ rest)"
  by (simp add: isVarDecl_def isConstDecl_def HasPrefix_def)

lemma const_prefix: "isConstDecl (''const'' @ '' '' @ rest) \<and> \<not> isVarDecl (''const'' @ '' '' @ rest)"
  by (simp add: isVarDecl_def isConstDecl_def HasPrefix_def)

text \<open>
  Claim C4.  For every extracted entry (a \<open>Define\<close> of at least three words): when its
  name is \<open>BINDIR\<close>, \<open>LIBEXECDIR\<close>, \<open>SYSCONFDIR\<close>, \<open>SESSIONDIR\<close>, \<open>APPTAINER_CONFDIR\<close> or
  \<open>PLUGIN_ROOTDIR\<close>, the declaration is the variable \<open>var NAME = relocatePath(RHS)\<close> with
  \<open>RHS\<close> the value tokens joined by \<open>" + "\<close>; when its name is \<open>APPTAINER_SUID_INSTALL\<close>,
  the declaration is \<open>var APPTAINER_SUID_INSTALL = isSuidInstall()\<close>, whatever the value
  tokens are; in both cases the declaration is a \<open>var\<close> and not a \<open>const\<close>.
\<close>

theorem WriteLine_relocation_and_suid:
  assumes "3 \<le> length (Words d)"
  shows "(Words d ! 1 \<in> {''BINDIR'', ''LIBEXECDIR'', ''SYSCONFDIR'', ''SESSIONDIR'',
                          ''APPTAINER_CONFDIR'', ''PLUGIN_ROOTDIR''} \<longrightarrow>
            WriteLine d = Some (''var '' @ Words d ! 1 @ '' = relocatePath(''
                                  @ joinWith '' + '' (drop 2 (Words d)) @ '')''))
       \<and> (Words d ! 1 = ''APPTAINER_SUID_INSTALL'' \<longrightarrow>
            WriteLine d = Some ''var APPTAINER_SUID_INSTALL = isSuidInstall()'')
       \<and> (Words d ! 1 \<in> {''BINDIR'', ''LIBEXECDIR'', ''SYSCONFDIR'', ''SESSIONDIR'',
                          ''APPTAINER_CONFDIR'', ''PLUGIN_ROOTDIR'', ''APPTAINER_SUID_INSTALL''} \<longrightarrow>
            (\<exists>line. WriteLine d = Some line \<and> isVarDecl line \<and> \<not> isConstDecl line))"
proof -
  have len: "\<not> length (Words d) < 3"
    using assms by simp
  have rhs: "valueExpr d = joinWith '' + '' (drop 2 (Words d))"
    using assms by (rule valueExpr_joinWith)
  have reloc: "WriteLine d = Some (''var'' @ '' '' @ Words d ! 1 @ '' = relocatePath(''
                                  @ joinWith '' + '' (drop 2 (Words d)) @ '')'')"
    if "Words d ! 1 \<in> {''BINDIR'', ''LIBEXECDIR'', ''SYSCONFDIR'', ''SESSIONDIR'',
                          ''APPTAINER_CONFDIR'', ''PLUGIN_ROOTDIR''}"
  proof -
    from that have "Words d ! 1 \<in> set relocatableNames"
      by (simp add: relocatableNames_def)
    with len show ?thesis
      by (simp add: WriteLine_def Let_def rhs)
  qed
  have suid: "WriteLine d = Some (''var'' @ '' '' @ ''APPTAINER_SUID_INSTALL = isSuidInstall()'')"
    if "Words d ! 1 = ''APPTAINER_SUID_INSTALL''"
    using that len by (simp add: WriteLine_def Let_def relocatableNames_def)
  have var: "\<exists>line. WriteLine d = Some line \<and> isVarDecl line \<and> \<not> isConstDecl line"
    if "Words d ! 1 \<in> {''BINDIR'', ''LIBEXECDIR'', ''SYSCONFDIR'', ''SESSIONDIR'',
                          ''APPTAINER_CONFDIR'', ''PLUGIN_ROOTDIR'', ''APPTAINER_SUID_INSTALL''}"
  proof (cases "Words d ! 1 = ''APPTAINER_SUID_INSTALL''")
    case True
    with suid var_prefix show ?thesis by metis
  next
    case False
    with that have "Words d ! 1 \<in> {''BINDIR'', ''LIBEXECDIR'', ''SYSCONFDIR'', ''SESSIONDIR'',
                          ''APPTAINER_CONFDIR'', ''PLUGIN_ROOTDIR''}"
      by simp
    with reloc var_prefix show ?thesis by metis
  qed
  from reloc suid var show ?thesis
    by simp
qed

text \<open>
  Claim C5.  For every extracted entry whose name is neither one of the six relocatable
  names nor \<open>APPTAINER_SUID_INSTALL\<close>, the declaration is \<open>KW NAME = RHS\<close> with \<open>RHS\<close> the
  value tokens joined by \<open>" + "\<close>, and the keyword is \<open>var\<close> exactly when \<open>RHS\<close> contains
  the substring \<open>APPTAINER_CONFDIR\<close>, and \<open>const\<close> otherwise.
\<close>

theorem WriteLine_other_names:
  assumes "3 \<le> length (Words d)"
    and "Words d ! 1 \<notin> set relocatableNames"
    and "Words d ! 1 \<noteq> ''APPTAINER_SUID_INSTALL''"
  shows "\<exists>line. WriteLine d = Some line
       \<and> line = (if Contains (joinWith '' + '' (drop 2 (Words d))) ''APPTAINER_CONFDIR''
                 then ''var'' else ''const'')
                @ '' '' @ Words d ! 1 @ '' = '' @ joinWith '' + '' (drop 2 (Words d))
       \<and> (isVarDecl line \<longleftrightarrow> Contains (joinWith '' + '' (drop 2 (Words d))) ''APPTAINER_CONFDIR'')
       \<and> (isConstDecl line \<longleftrightarrow> \<not> Contains (joinWith '' + '' (drop 2 (Words d))) ''APPTAINER_CONFDIR'')"
proof -
  let ?rhs = "joinWith '' + '' (drop 2 (Words d))"
  have len: "\<not> length (Words d) < 3"
    using assms(1) by simp
  have rhs: "valueExpr d = ?rhs"
    using assms(1) by (rule valueExpr_joinWith)
  show ?thesis
  proof (cases "Contains ?rhs ''APPTAINER_CONFDIR''")
    case True
    then have "WriteLine d = Some (''var'' @ '' '' @ Words d ! 1 @ '' = '' @ ?rhs)"
      using len assms(2,3) by (simp add: WriteLine_def Let_def rhs)
    with True var_prefix show ?thesis
      by auto
  next
    case False
    then have "WriteLine d = Some (''const'' @ '' '' @ Words d ! 1 @ '' = '' @ ?rhs)"
      using len assms(2,3) by (simp add: WriteLine_def Let_def rhs)
    with False const_prefix show ?thesis
      by auto
  qed
qed

theorem WriteLine_relocation_and_suid_witness:
  "WriteLine \<lparr>Words = [''#define'', ''BINDIR'', quoted ''/usr/bin'']\<rparr>
       = Some (''var BINDIR = relocatePath('' @ quoted ''/usr/bin'' @ '')'')
   \<and> WriteLine \<lparr>Words = [''#define'', ''LIBEXECDIR'', quoted ''/usr/libexec'']\<rparr>
       = Some (''var LIBEXECDIR = relocatePath('' @ quoted ''/usr/libexec'' @ '')'')
   \<and> WriteLine \<lparr>Words = [''#define'', ''SYSCONFDIR'', quoted ''/etc'']\<rparr>
       = Some (''var SYSCONFDIR = relocatePath('' @ quoted ''/etc'' @ '')'')
   \<and> WriteLine \<lparr>Words = [''#define'', ''SESSIONDIR'', quoted ''/var/apptainer/mnt/session'']\<rparr>
       = Some (''var SESSIONDIR = relocatePath('' @ quoted ''/var/apptainer/mnt/session'' @ '')'')
   \<and> WriteLine \<lparr>Words = [''#define'', ''APPTAINER_CONFDIR'', ''SYSCONFDIR'', quoted ''/apptainer'']\<rparr>
       = Some (''var APPTAINER_CONFDIR = relocatePath(SYSCONFDIR + '' @ quoted ''/apptainer'' @ '')'')
   \<and> WriteLine \<lparr>Words = [''#define'', ''PLUGIN_ROOTDIR'', quoted ''/usr/libexec/apptainer/plugin'']\<rparr>
       = Some (''var PLUGIN_ROOTDIR = relocatePath('' @ quoted ''/usr/libexec/apptainer/plugin'' @ '')'')
   \<and> WriteLine \<lparr>Words = [''#define'', ''APPTAINER_SUID_INSTALL'', ''0'']\<rparr>
       = Some ''var APPTAINER_SUID_INSTALL = isSuidInstall()''
   \<and> WriteLine \<lparr>Words = [''#define'', ''APPTAINER_SUID_INSTALL'', ''1'']\<rparr>
       = Some ''var APPTAINER_SUID_INSTALL = isSuidInstall()''
   \<and> (\<exists>line. WriteLine \<lparr>Words = [''#define'', ''SYSCONFDIR'', quoted ''/etc'']\<rparr> = Some line
          \<and> isVarDecl line \<and> \<not> isConstDecl line)"
proof -
  let ?bin = "\<lparr>Words = [''#define'', ''BINDIR'', quoted ''/usr/bin'']\<rparr>"
  let ?libexec = "\<lparr>Words = [''#define'', ''LIBEXECDIR'', quoted ''/usr/libexec'']\<rparr>"
  let ?sysconf = "\<lparr>Words = [''#define'', ''SYSCONFDIR'', quoted ''/etc'']\<rparr>"
  let ?session = "\<lparr>Words = [''#define'', ''SESSIONDIR'', quoted ''/var/apptainer/mnt/session'']\<rparr>"
  let ?conf = "\<lparr>Words = [''#define'', ''APPTAINER_CONFDIR'', ''SYSCONFDIR'', quoted ''/apptainer'']\<rparr>"
  let ?plugin = "\<lparr>Words = [''#define'', ''PLUGIN_ROOTDIR'', quoted ''/usr/libexec/apptainer/plugin'']\<rparr>"
  let ?s0 = "\<lparr>Words = [''#define'', ''APPTAINER_SUID_INSTALL'', ''0'']\<rparr>"
  let ?s1 = "\<lparr>Words = [''#define'', ''APPTAINER_SUID_INSTALL'', ''1'']\<rparr>"
  have len: "3 \<le> length (Words ?bin)" "3 \<le> length (Words ?libexec)"
    "3 \<le> length (Words ?sysconf)" "3 \<le> length (Words ?session)" "3 \<le> length (Words ?conf)"
    "3 \<le> length (Words ?plugin)" "3 \<le> length (Words ?s0)" "3 \<le> length (Words ?s1)"
    by simp_all
  have "WriteLine ?bin = Some (''var BINDIR = relocatePath('' @ quoted ''/usr/bin'' @ '')'')"
    using WriteLine_relocation_and_suid [OF len(1)] by simp
  moreover have "WriteLine ?libexec
      = Some (''var LIBEXECDIR = relocatePath('' @ quoted ''/usr/libexec'' @ '')'')"
    using WriteLine_relocation_and_suid [OF len(2)] by simp
  moreover have "WriteLine ?sysconf = Some (''var SYSCONFDIR = relocatePath('' @ quoted ''/etc'' @ '')'')"
    using WriteLine_relocation_and_suid [OF len(3)] by simp
  moreover have "WriteLine ?session
      = Some (''var SESSIONDIR = relocatePath('' @ quoted ''/var/apptainer/mnt/session'' @ '')'')"
    using WriteLine_relocation_and_suid [OF len(4)] by simp
  moreover have "WriteLine ?conf
      = Some (''var APPTAINER_CONFDIR = relocatePath(SYSCONFDIR + '' @ quoted ''/apptainer'' @ '')'')"
    using WriteLine_relocation_and_suid [OF len(5)] by simp
  moreover have "WriteLine ?plugin
      = Some (''var PLUGIN_ROOTDIR = relocatePath('' @ quoted ''/usr/libexec/apptainer/plugin'' @ '')'')"
    using WriteLine_relocation_and_suid [OF len(6)] by simp
  moreover have "WriteLine ?s0 = Some ''var APPTAINER_SUID_INSTALL = isSuidInstall()''"
    using WriteLine_relocation_and_suid [OF len(7)] by simp
  moreover have "WriteLine ?s1 = Some ''var APPTAINER_SUID_INSTALL = isSuidInstall()''"
    using WriteLine_relocation_and_suid [OF len(8)] by simp
  moreover have "\<exists>line. WriteLine ?sysconf = Some line \<and> isVarDecl line \<and> \<not> isConstDecl line"
    using WriteLine_relocation_and_suid [OF len(3), THEN conjunct2, THEN conjunct2] by simp
  ultimately show ?thesis
    by simp
qed

theorem WriteLine_other_names_witness:
  "WriteLine \<lparr>Words = [''#define'', ''FOO'', quoted ''/usr/local'']\<rparr>
       = Some (''const FOO = '' @ quoted ''/usr/local'')
   \<and> WriteLine \<lparr>Words = [''#define'', ''CONF_FILE'', ''APPTAINER_CONFDIR'', quoted ''/a.conf'']\<rparr>
       = Some (''var CONF_FILE = APPTAINER_CONFDIR + '' @ quoted ''/a.conf'')"
proof -
  let ?f = "\<lparr>Words = [''#define'', ''FOO'', quoted ''/usr/local'']\<rparr>"
  let ?c = "\<lparr>Words = [''#define'', ''CONF_FILE'', ''APPTAINER_CONFDIR'', quoted ''/a.conf'']\<rparr>"
  have f: "3 \<le> length (Words ?f)" "Words ?f ! 1 \<notin> set relocatableNames"
    "Words ?f ! 1 \<noteq> ''APPTAINER_SUID_INSTALL''"
    by (simp_all add: relocatableNames_def)
  have c: "3 \<le> length (Words ?c)" "Words ?c ! 1 \<notin> set relocatableNames"
    "Words ?c ! 1 \<noteq> ''APPTAINER_SUID_INSTALL''"
    by (simp_all add: relocatableNames_def)
  have "WriteLine ?f = Some (''const FOO = '' @ quoted ''/usr/local'')"
    using WriteLine_other_names [OF f] by (simp add: quoted_def HasPrefix_def)
  moreover have "WriteLine ?c = Some (''var CONF_FILE = APPTAINER_CONFDIR + '' @ quoted ''/a.conf'')"
    using WriteLine_other_names [OF c] by (simp add: quoted_def HasPrefix_def)
  ultimately show ?thesis
    by simp
qed

section \<open>The scanning loop and the extraction\<close>


lemma fieldsFrom_nonempty: "f \<in> set (fieldsFrom cur s) \<Longrightarrow> f \<noteq> []"
proof (induction cur s rule: fieldsFrom.induct)
  case (1 cur)
  then show ?case by (auto split: if_splits)
next
  case (2 cur c cs)
  show ?case
  proof (cases "spaceWidth (c # cs) = 0")
    case True
    with 2 show ?thesis by simp
  next
    case False
    with 2 show ?thesis by (auto split: if_splits)
  qed
qed

lemma Fields_nonempty: "f \<in> set (Fields s) \<Longrightarrow> f \<noteq> []"
  unfolding Fields_def by (rule fieldsFrom_nonempty)

lemma parseLine_word_nonempty:
  assumes "i < length (Words (parseLine l))"
  shows "Words (parseLine l) ! i \<noteq> []"
proof -
  have "Words (parseLine l) ! i \<in> set (Fields l)"
    using assms by (simp add: parseLine_def)
  then show ?thesis by (rule Fields_nonempty)
qed

lemma entries_Nil: "entries [] = []"
  by (simp add: entries_def)

lemma entries_Cons:
  "entries (l # ls) = (if recognized (parseLine l) then parseLine l # entries ls else entries ls)"
  by (simp add: entries_def)

lemma entries_word_nonempty:
  assumes "d \<in> set (entries lines)" and "i < length (Words d)"
  shows "Words d ! i \<noteq> []"
proof -
  from assms(1) obtain l where "d = parseLine l"
    by (auto simp: entries_def)
  with assms(2) show ?thesis
    by (simp add: parseLine_word_nonempty)
qed

lemma entries_length: "d \<in> set (entries lines) \<Longrightarrow> 2 < length (Words d)"
  by (auto simp: entries_def recognized_def)

lemma scanLoop_entries:
  "scanLoop lines prefix header =
     (if list_ex malformedPrefix (entries lines)
      then Inl ''Expected PREFIX to contain 3 elements''
      else Inr (lastPrefix prefix (entries lines), header @ entries lines))"
proof (induction lines arbitrary: prefix header)
  case Nil
  show ?case by (simp add: entries_Nil lastPrefix_def)
next
  case (Cons l ls)
  show ?case
  proof (cases "recognized (parseLine l)")
    case False
    then have "scanLoop (l # ls) prefix header = scanLoop ls prefix header"
      by (auto simp: recognized_def Let_def)
    with False Cons.IH show ?thesis
      by (simp add: entries_Cons)
  next
    case True
    then have rec: "length (Words (parseLine l)) > 2 \<and> Words (parseLine l) ! 0 = ''#define''"
      by (simp add: recognized_def)
    show ?thesis
    proof (cases "Words (parseLine l) ! 1 = ''PREFIX''")
      case False
      with rec have "scanLoop (l # ls) prefix header = scanLoop ls prefix (header @ [parseLine l])"
        by (simp add: Let_def)
      with True False Cons.IH show ?thesis
        by (simp add: entries_Cons malformedPrefix_def lastPrefix_def)
    next
      case isP: True
      show ?thesis
      proof (cases "length (Words (parseLine l)) = 3")
        case False
        with rec isP have "scanLoop (l # ls) prefix header = Inl ''Expected PREFIX to contain 3 elements''"
          by (simp add: Let_def)
        with True isP False show ?thesis
          by (simp add: entries_Cons malformedPrefix_def)
      next
        case len3: True
        with rec isP have "scanLoop (l # ls) prefix header
            = scanLoop ls (Words (parseLine l) ! 2) (header @ [parseLine l])"
          by (simp add: Let_def)
        with True isP len3 Cons.IH show ?thesis
          by (simp add: entries_Cons malformedPrefix_def lastPrefix_def)
      qed
    qed
  qed
qed

lemma lastPrefix_snoc:
  "lastPrefix prefix (ds @ [d]) =
     (if Words d ! 1 = ''PREFIX'' then Words d ! 2 else lastPrefix prefix ds)"
  by (simp add: lastPrefix_def)

lemma lastPrefix_none:
  "\<forall>d\<in>set ds. Words d ! 1 \<noteq> ''PREFIX'' \<Longrightarrow> lastPrefix prefix ds = prefix"
  by (induction ds rule: rev_induct) (simp_all add: lastPrefix_snoc, simp add: lastPrefix_def)

lemma lastPrefix_some:
  "\<exists>d\<in>set ds. Words d ! 1 = ''PREFIX'' \<Longrightarrow>
   \<exists>d\<in>set ds. Words d ! 1 = ''PREFIX'' \<and> lastPrefix prefix ds = Words d ! 2"
proof (induction ds rule: rev_induct)
  case Nil
  then show ?case by simp
next
  case (snoc x xs)
  show ?case
  proof (cases "Words x ! 1 = ''PREFIX''")
    case True
    then show ?thesis
      by (auto simp: lastPrefix_snoc)
  next
    case False
    with snoc.prems have "\<exists>d\<in>set xs. Words d ! 1 = ''PREFIX''"
      by auto
    with snoc.IH obtain d where "d \<in> set xs" "Words d ! 1 = ''PREFIX''"
      "lastPrefix prefix xs = Words d ! 2"
      by blast
    with False show ?thesis
      by (auto simp: lastPrefix_snoc)
  qed
qed

lemma lastPrefix_entries_empty_iff:
  "lastPrefix [] (entries lines) = [] \<longleftrightarrow> (\<forall>d\<in>set (entries lines). Words d ! 1 \<noteq> ''PREFIX'')"
proof
  assume empty: "lastPrefix [] (entries lines) = []"
  show "\<forall>d\<in>set (entries lines). Words d ! 1 \<noteq> ''PREFIX''"
  proof (rule ccontr)
    assume "\<not> (\<forall>d\<in>set (entries lines). Words d ! 1 \<noteq> ''PREFIX'')"
    then have "\<exists>d\<in>set (entries lines). Words d ! 1 = ''PREFIX''"
      by simp
    then obtain d where d: "d \<in> set (entries lines)"
      "lastPrefix [] (entries lines) = Words d ! 2"
      using lastPrefix_some by blast
    from d(1) have "2 < length (Words d)"
      by (rule entries_length)
    with d(1) have "Words d ! 2 \<noteq> []"
      by (rule entries_word_nonempty)
    with d(2) empty show False
      by simp
  qed
next
  assume "\<forall>d\<in>set (entries lines). Words d ! 1 \<noteq> ''PREFIX''"
  then show "lastPrefix [] (entries lines) = []"
    by (rule lastPrefix_none)
qed

lemma Getenv_tagEntries:
  "(if Getenv env \<noteq> [] then header @ [buildTagsDefine (Getenv env)] else header)
     = header @ tagEntries env"
proof (cases env)
  case None
  then show ?thesis by (simp add: Getenv_def)
next
  case (Some v)
  then show ?thesis by (cases v) (simp_all add: Getenv_def)
qed

lemma extractEntries_eq:
  "extractEntries lines env =
     (if list_ex malformedPrefix (entries lines)
      then Inl ''Expected PREFIX to contain 3 elements''
      else if \<forall>d\<in>set (entries lines). Words d ! 1 \<noteq> ''PREFIX''
      then Inl ''Failed to find value of PREFIX''
      else Inr (lastPrefix [] (entries lines), entries lines @ tagEntries env))"
proof -
  have tags: "(if Getenv env \<noteq> []
               then Inr (p, entries lines @ [buildTagsDefine (Getenv env)])
               else Inr (p, entries lines))
              = (Inr (p, entries lines @ tagEntries env) :: string + (string \<times> Define list))" for p
    using Getenv_tagEntries [of env "entries lines"] by (simp split: if_splits)
  show ?thesis
  proof (cases "list_ex malformedPrefix (entries lines)")
    case True
    then show ?thesis
      by (simp add: extractEntries_def scanLoop_entries)
  next
    case False
    then have "extractEntries lines env =
        (if lastPrefix [] (entries lines) = [] then Inl ''Failed to find value of PREFIX''
         else Inr (lastPrefix [] (entries lines), entries lines @ tagEntries env))"
      by (simp add: extractEntries_def scanLoop_entries tags)
    with False show ?thesis
      by (simp add: lastPrefix_entries_empty_iff)
  qed
qed

lemma extractEntries_prefix_nonempty:
  assumes "extractEntries lines env = Inr (prefix, header)"
  shows "prefix \<noteq> []"
proof -
  from assms have "prefix = lastPrefix [] (entries lines)"
    and "\<not> (\<forall>d\<in>set (entries lines). Words d ! 1 \<noteq> ''PREFIX'')"
    by (auto simp: extractEntries_eq split: if_splits)
  then show ?thesis
    by (simp add: lastPrefix_entries_empty_iff)
qed

lemmas evalLines = entries_def parseLine_def Fields_def recognized_def asciiSpace_def quoted_def

lemma main_io_ok:
  assumes "createErr w = None" and "2 \<le> length (args w)"
    and "readFile w (args w ! 1) = Inr lines"
  shows "main w =
     (case extractEntries lines (buildTagsEnv w) of
        Inl msg \<Rightarrow> Fatal msg
      | Inr (prefix, header) \<Rightarrow>
          if length prefix < 2 then Panicked
          else (case Execute (writeErr w) (butlast (tl prefix)) header of
                  Inl e \<Rightarrow> Printed e
                | Inr g \<Rightarrow> Generated g))"
proof -
  have slice: "take (length p - Suc (Suc 0)) (drop (Suc 0) p) = butlast (tl p)" for p :: string
    by (simp add: butlast_conv_take drop_Suc)
  have bound: "(int (length p) - 1 < 1) = (length p < 2)" for p :: string
    by auto
  from assms show ?thesis
    by (simp add: main_def slice bound split: sum.splits prod.splits)
qed

lemma entries_sampleLines:
  "entries sampleLines =
     [\<lparr>Words = [''#define'', ''PREFIX'', quoted ''/usr'']\<rparr>,
      \<lparr>Words = [''#define'', ''BINDIR'', quoted ''/usr/bin'']\<rparr>,
      \<lparr>Words = [''#define'', ''FOO'', ''1'']\<rparr>,
      \<lparr>Words = [''#define'', ''FOO'', ''1'']\<rparr>]"
  by (simp add: sampleLines_def evalLines)


lemma WriteLine_Some: "3 \<le> length (Words d) \<Longrightarrow> \<exists>line. WriteLine d = Some line"
  by (simp add: WriteLine_def Let_def)

lemma renderAll_Some:
  "\<forall>d\<in>set ds. 3 \<le> length (Words d) \<Longrightarrow> \<exists>ls. renderAll ds = Some ls \<and> length ls = length ds"
proof (induction ds)
  case Nil
  show ?case by simp
next
  case (Cons d ds)
  then obtain line ls where "WriteLine d = Some line" "renderAll ds = Some ls" "length ls = length ds"
    using WriteLine_Some [of d] by auto
  then show ?case by simp
qed

lemma tagEntries_length: "d \<in> set (tagEntries env) \<Longrightarrow> 3 \<le> length (Words d)"
proof (cases env)
  case None
  assume "d \<in> set (tagEntries env)"
  with None show ?thesis by simp
next
  case (Some v)
  assume "d \<in> set (tagEntries env)"
  with Some show ?thesis by (cases v) (simp_all add: buildTagsDefine_def)
qed

text \<open>On the entries that the extraction produces the template never fails in \<open>WriteLine\<close>.\<close>

lemma Execute_extracted:
  assumes "extractEntries lines env = Inr (prefix, header)"
  shows "Execute werr p header =
           (case werr of Some e \<Rightarrow> Inl e
            | None \<Rightarrow> Inr \<lparr>genPrefix = p, genLines = the (renderAll header)\<rparr>)"
    and "\<exists>ls. renderAll header = Some ls \<and> length ls = length header"
proof -
  from assms have header: "header = entries lines @ tagEntries env"
    by (auto simp: extractEntries_eq split: if_splits)
  have "\<forall>d\<in>set header. 3 \<le> length (Words d)"
    unfolding header using entries_length tagEntries_length by fastforce
  then show r: "\<exists>ls. renderAll header = Some ls \<and> length ls = length header"
    by (rule renderAll_Some)
  then show "Execute werr p header =
           (case werr of Some e \<Rightarrow> Inl e
            | None \<Rightarrow> Inr \<lparr>genPrefix = p, genLines = the (renderAll header)\<rparr>)"
    by (auto simp: Execute_def split: option.splits)
qed

section \<open>The entries that the extraction produces\<close>

text \<open>
  Claim C6, as amended.  For every sequence of input lines in which every recognized
  \<open>PREFIX\<close> entry has exactly three words and at least one recognized \<open>PREFIX\<close> entry
  exists, the extraction succeeds and its entries are: one entry for each line that has
  more than two words and \<open>#define\<close> as the first, in input order, duplicates kept and
  every other line ignored; followed by the one \<open>GO_BUILD_TAGS\<close> entry exactly when the
  environment variable is set and not empty.
\<close>

theorem extractEntries_header:
  assumes "\<forall>d\<in>set (entries lines). Words d ! 1 = ''PREFIX'' \<longrightarrow> length (Words d) = 3"
    and "\<exists>d\<in>set (entries lines). Words d ! 1 = ''PREFIX''"
  shows "\<exists>prefix. extractEntries lines env
           = Inr (prefix, filter recognized (map parseLine lines) @ tagEntries env)"
proof -
  from assms(1) have "\<not> list_ex malformedPrefix (entries lines)"
    by (auto simp: list_ex_iff malformedPrefix_def)
  with assms(2) have "extractEntries lines env
      = Inr (lastPrefix [] (entries lines), entries lines @ tagEntries env)"
    by (simp add: extractEntries_eq)
  then show ?thesis
    by (auto simp: entries_def)
qed

theorem extractEntries_header_witness:
  "\<exists>prefix. extractEntries sampleLines (Some ''netgo'') =
     Inr (prefix,
          [\<lparr>Words = [''#define'', ''PREFIX'', quoted ''/usr'']\<rparr>,
           \<lparr>Words = [''#define'', ''BINDIR'', quoted ''/usr/bin'']\<rparr>,
           \<lparr>Words = [''#define'', ''FOO'', ''1'']\<rparr>,
           \<lparr>Words = [''#define'', ''FOO'', ''1'']\<rparr>,
           \<lparr>Words = [''#define'', ''GO_BUILD_TAGS'', [CHR 0x60] @ ''netgo'' @ [CHR 0x60]]\<rparr>])"
proof -
  have wf: "\<forall>d\<in>set (entries sampleLines). Words d ! 1 = ''PREFIX'' \<longrightarrow> length (Words d) = 3"
    by (simp add: entries_sampleLines)
  have ex: "\<exists>d\<in>set (entries sampleLines). Words d ! 1 = ''PREFIX''"
    by (simp add: entries_sampleLines)
  have "filter recognized (map parseLine sampleLines) = entries sampleLines"
    by (simp add: entries_def)
  then show ?thesis
    using extractEntries_header [OF wf ex, of "Some ''netgo''"]
    by (simp add: entries_sampleLines buildTagsDefine_def)
qed

text \<open>
  The claim as stated, for every sequence of input lines, fails: the one line
  \<open>#define FOO 1\<close> is recognized as an entry, and the extraction ends in
  \<open>sylog.Fatalf("Failed to find value of PREFIX")\<close> and produces no entries.
\<close>

theorem extractEntries_fatal_counterexample:
  "filter recognized (map parseLine [''#define FOO 1'']) = [\<lparr>Words = [''#define'', ''FOO'', ''1'']\<rparr>]
   \<and> extractEntries [''#define FOO 1''] None = Inl ''Failed to find value of PREFIX''
   \<and> \<not> (\<exists>prefix. extractEntries [''#define FOO 1''] None
            = Inr (prefix, filter recognized (map parseLine [''#define FOO 1'']) @ tagEntries None))"
proof -
  have e: "entries [''#define FOO 1''] = [\<lparr>Words = [''#define'', ''FOO'', ''1'']\<rparr>]"
    by (simp add: evalLines)
  then have "extractEntries [''#define FOO 1''] None = Inl ''Failed to find value of PREFIX''"
    by (simp add: extractEntries_eq malformedPrefix_def)
  with e show ?thesis
    by (simp add: entries_def)
qed

section \<open>The \<open>PREFIX\<close> entry\<close>


section \<open>How a failing run ends\<close>

text \<open>
  What \<open>main\<close> does on each failure: a failure to create the output file, a failure to
  read the input file and an error of executing the template make it print the error and
  return; a missing or malformed \<open>PREFIX\<close> entry makes it call \<open>sylog.Fatalf\<close> with one of
  its two messages.
\<close>

lemma main_failures:
  "(createErr w = Some e \<longrightarrow> main w = Printed e)
   \<and> (createErr w = None \<and> 2 \<le> length (args w) \<and> readFile w (args w ! 1) = Inl e \<longrightarrow>
        main w = Printed e)
   \<and> (createErr w = None \<and> 2 \<le> length (args w) \<and> readFile w (args w ! 1) = Inr lines \<and>
      ((\<exists>d\<in>set (entries lines). Words d ! 1 = ''PREFIX'' \<and> length (Words d) \<noteq> 3) \<or>
       (\<forall>d\<in>set (entries lines). Words d ! 1 \<noteq> ''PREFIX'')) \<longrightarrow>
        (main w = Fatal ''Expected PREFIX to contain 3 elements'' \<or>
         main w = Fatal ''Failed to find value of PREFIX'') \<and> exitStatus (main w) = ExitNonZero)
   \<and> (createErr w = None \<and> 2 \<le> length (args w) \<and> readFile w (args w ! 1) = Inr lines \<and>
      extractEntries lines (buildTagsEnv w) = Inr (prefix, header) \<and> 2 \<le> length prefix \<and>
      Execute (writeErr w) (butlast (tl prefix)) header = Inl e \<longrightarrow>
        main w = Printed e)"
proof -
  have create: "main w = Printed e" if "createErr w = Some e"
    using that by (simp add: main_def)
  have read: "main w = Printed e"
    if "createErr w = None \<and> 2 \<le> length (args w) \<and> readFile w (args w ! 1) = Inl e"
    using that by (simp add: main_def)
  have fatal: "(main w = Fatal ''Expected PREFIX to contain 3 elements'' \<or>
         main w = Fatal ''Failed to find value of PREFIX'') \<and> exitStatus (main w) = ExitNonZero"
    if h: "createErr w = None \<and> 2 \<le> length (args w) \<and> readFile w (args w ! 1) = Inr lines \<and>
      ((\<exists>d\<in>set (entries lines). Words d ! 1 = ''PREFIX'' \<and> length (Words d) \<noteq> 3) \<or>
       (\<forall>d\<in>set (entries lines). Words d ! 1 \<noteq> ''PREFIX''))"
  proof -
    from h have io: "createErr w = None" "2 \<le> length (args w)"
      "readFile w (args w ! 1) = Inr lines"
      by simp_all
    show ?thesis
    proof (cases "list_ex malformedPrefix (entries lines)")
      case True
      then have "main w = Fatal ''Expected PREFIX to contain 3 elements''"
        by (simp add: main_io_ok [OF io] extractEntries_eq)
      then show ?thesis by simp
    next
      case False
      with h have "\<forall>d\<in>set (entries lines). Words d ! 1 \<noteq> ''PREFIX''"
        by (auto simp: list_ex_iff malformedPrefix_def)
      with False have "main w = Fatal ''Failed to find value of PREFIX''"
        by (simp add: main_io_ok [OF io] extractEntries_eq)
      then show ?thesis by simp
    qed
  qed
  have execute: "main w = Printed e"
    if h: "createErr w = None \<and> 2 \<le> length (args w) \<and> readFile w (args w ! 1) = Inr lines \<and>
      extractEntries lines (buildTagsEnv w) = Inr (prefix, header) \<and> 2 \<le> length prefix \<and>
      Execute (writeErr w) (butlast (tl prefix)) header = Inl e"
  proof -
    from h have io: "createErr w = None" "2 \<le> length (args w)"
      "readFile w (args w ! 1) = Inr lines"
      by simp_all
    from h show ?thesis
      by (simp add: main_io_ok [OF io])
  qed
  from create read fatal execute show ?thesis
    by blast
qed

text \<open>
  Claim C8.  On every fatal condition of the generation (an unreadable input file, a
  missing or malformed \<open>PREFIX\<close> entry, a failure to create or to write the output file,
  a failure to render the template) the generator is to end at once with a non-zero exit
  status and a diagnostic message.  The code does so for the \<open>PREFIX\<close> conditions, which
  end in \<open>sylog.Fatalf\<close>.  It does not for the others: when \<open>os.Create\<close> fails, when
  \<open>os.ReadFile\<close> fails and when \<open>Execute\<close> fails, \<open>main\<close> prints the error and returns, and
  a process whose \<open>main\<close> returns exits with status zero.
\<close>

theorem main_exit_status_on_failure:
  "main (sampleWorld sampleLines\<lparr>createErr := Some ''permission denied''\<rparr>) = Printed ''permission denied''
   \<and> exitStatus (main (sampleWorld sampleLines\<lparr>createErr := Some ''permission denied''\<rparr>)) = ExitZero
   \<and> main (sampleWorld sampleLines\<lparr>readFile := (\<lambda>path. Inl ''no such file'')\<rparr>) = Printed ''no such file''
   \<and> exitStatus (main (sampleWorld sampleLines\<lparr>readFile := (\<lambda>path. Inl ''no such file'')\<rparr>)) = ExitZero
   \<and> main (sampleWorld sampleLines\<lparr>writeErr := Some ''disk full''\<rparr>) = Printed ''disk full''
   \<and> exitStatus (main (sampleWorld sampleLines\<lparr>writeErr := Some ''disk full''\<rparr>)) = ExitZero
   \<and> main (sampleWorld [''#define PREFIX a b'']) = Fatal ''Expected PREFIX to contain 3 elements''
   \<and> exitStatus (main (sampleWorld [''#define PREFIX a b''])) = ExitNonZero
   \<and> main (sampleWorld [''#define BINDIR a'']) = Fatal ''Failed to find value of PREFIX''
   \<and> exitStatus (main (sampleWorld [''#define BINDIR a''])) = ExitNonZero"
proof -
  have "extractEntries sampleLines None = Inr (quoted ''/usr'', entries sampleLines)"
    by (simp add: extractEntries_eq entries_sampleLines malformedPrefix_def lastPrefix_def)
  then have written: "main (sampleWorld sampleLines\<lparr>writeErr := Some ''disk full''\<rparr>) = Printed ''disk full''"
    by (simp add: main_def sampleWorld_def Execute_def quoted_def)
  have "entries [''#define PREFIX a b''] = [\<lparr>Words = [''#define'', ''PREFIX'', ''a'', ''b'']\<rparr>]"
    by (simp add: evalLines)
  then have malformed: "main (sampleWorld [''#define PREFIX a b''])
      = Fatal ''Expected PREFIX to contain 3 elements''"
    by (simp add: main_def sampleWorld_def extractEntries_eq malformedPrefix_def)
  have "entries [''#define BINDIR a''] = [\<lparr>Words = [''#define'', ''BINDIR'', ''a'']\<rparr>]"
    by (simp add: evalLines)
  then have missing: "main (sampleWorld [''#define BINDIR a''])
      = Fatal ''Failed to find value of PREFIX''"
    by (simp add: main_def sampleWorld_def extractEntries_eq malformedPrefix_def)
  from written malformed missing show ?thesis
    by (simp add: main_def sampleWorld_def)
qed

section \<open>The slice that strips the quotes of the prefix\<close>

text \<open>
  Claim C10.  In a run of \<open>main\<close> whose extraction succeeds with the \<open>PREFIX\<close> value token
  \<open>prefix\<close>: the token is not empty; the run panics exactly when the token has one
  character (the bounds of \<open>prefix[1 : len(prefix)-1]\<close> are then 1 and 0), and then it
  does not end in \<open>sylog.Fatalf\<close>; with two characters or more the first and the last
  character are dropped, whatever they are, and the template is executed.
\<close>

theorem main_prefix_slice:
  assumes "createErr w = None" and "2 \<le> length (args w)"
    and "readFile w (args w ! 1) = Inr lines"
    and "extractEntries lines (buildTagsEnv w) = Inr (prefix, header)"
  shows "prefix \<noteq> []
       \<and> (main w = Panicked \<longleftrightarrow> length prefix = 1)
       \<and> (length prefix = 1 \<longrightarrow> (\<forall>msg. main w \<noteq> Fatal msg))
       \<and> (2 \<le> length prefix \<longrightarrow>
            main w = (case writeErr w of
                        Some e \<Rightarrow> Printed e
                      | None \<Rightarrow> Generated \<lparr>genPrefix = butlast (tl prefix),
                                           genLines = the (renderAll header)\<rparr>))"
proof -
  have ne: "prefix \<noteq> []"
    using assms(4) by (rule extractEntries_prefix_nonempty)
  have m: "main w = (if length prefix < 2 then Panicked
                     else (case writeErr w of
                        Some e \<Rightarrow> Printed e
                      | None \<Rightarrow> Generated \<lparr>genPrefix = butlast (tl prefix),
                                           genLines = the (renderAll header)\<rparr>))"
    by (simp add: main_io_ok [OF assms(1-3)] assms(4) Execute_extracted(1) [OF assms(4)]
             split: option.splits)
  from ne have "length prefix < 2 \<longleftrightarrow> length prefix = 1"
    by (cases prefix) auto
  with ne m show ?thesis
    by (auto split: option.splits)
qed

theorem main_prefix_slice_witness:
  "main (sampleWorld [''#define PREFIX x'']) = Panicked
   \<and> main (sampleWorld [''#define PREFIX '' @ quoted ''/usr''])
       = Generated \<lparr>genPrefix = ''/usr'', genLines = [''const PREFIX = '' @ quoted ''/usr'']\<rparr>"
proof -
  define x where "x = [''#define PREFIX x'']"
  define u where "u = [''#define PREFIX '' @ quoted ''/usr'']"
  have io: "createErr (sampleWorld ls) = None" "2 \<le> length (args (sampleWorld ls))"
    "readFile (sampleWorld ls) (args (sampleWorld ls) ! 1) = Inr ls" for ls
    by (simp_all add: sampleWorld_def)
  have ex: "entries x = [\<lparr>Words = [''#define'', ''PREFIX'', ''x'']\<rparr>]"
    by (simp add: x_def evalLines)
  have eu: "entries u = [\<lparr>Words = [''#define'', ''PREFIX'', quoted ''/usr'']\<rparr>]"
    by (simp add: u_def evalLines)
  have x: "extractEntries x (buildTagsEnv (sampleWorld x))
      = Inr (''x'', [\<lparr>Words = [''#define'', ''PREFIX'', ''x'']\<rparr>])"
    by (simp add: extractEntries_eq ex malformedPrefix_def lastPrefix_def sampleWorld_def)
  have u: "extractEntries u (buildTagsEnv (sampleWorld u))
      = Inr (quoted ''/usr'', [\<lparr>Words = [''#define'', ''PREFIX'', quoted ''/usr'']\<rparr>])"
    by (simp add: extractEntries_eq eu malformedPrefix_def lastPrefix_def sampleWorld_def)
  have "main (sampleWorld x) = Panicked"
    using main_prefix_slice [OF io x] by simp
  moreover have "main (sampleWorld u)
       = Generated \<lparr>genPrefix = ''/usr'', genLines = [''const PREFIX = '' @ quoted ''/usr'']\<rparr>"
    using main_prefix_slice [OF io u]
    by (simp add: quoted_def sampleWorld_def WriteLine_def valueExpr_def relocatableNames_def
                  HasPrefix_def)
  ultimately show ?thesis
    by (simp add: x_def u_def)
qed
section \<open>\<open>Clean\<close> and \<open>Rel\<close> on rooted paths\<close>

lemma joinWith_snoc: "es \<noteq> [] \<Longrightarrow> joinWith sep (es @ [e]) = joinWith sep es @ sep @ e"
  by (induction sep es rule: joinWith.induct) simp_all

lemma joinWith_nonempty:
  "es \<noteq> [] \<Longrightarrow> \<forall>e\<in>set es. e \<noteq> [] \<Longrightarrow> joinWith sep es \<noteq> []"
  by (induction sep es rule: joinWith.induct) simp_all

lemma backtrackTo_stops:
  assumes "\<forall>i. n < i \<and> i \<le> n + k \<longrightarrow> buf ! i \<noteq> CHR ''/''"
    and "d \<le> n" and "n = d \<or> buf ! n = CHR ''/''"
  shows "backtrackTo buf d (n + k) = n"
  using assms(1)
proof (induction k)
  case 0
  from assms(3) show ?case
    by (subst backtrackTo.simps) auto
next
  case (Suc k)
  from Suc.prems have "buf ! (n + Suc k) \<noteq> CHR ''/''"
    by simp
  moreover from assms(2) have "d < n + Suc k"
    by simp
  ultimately have "backtrackTo buf d (n + Suc k) = backtrackTo buf d (n + k)"
    by (subst backtrackTo.simps) simp
  with Suc show ?case
    by simp
qed

lemma rootedPath_length: "\<forall>e\<in>set es. plainElem e \<Longrightarrow> (1 < length (rootedPath es)) = (es \<noteq> [])"
proof (cases es)
  case Nil
  then show ?thesis by (simp add: rootedPath_def)
next
  case (Cons a list)
  assume "\<forall>e\<in>set es. plainElem e"
  then have "joinWith ''/'' es \<noteq> []"
    using Cons by (intro joinWith_nonempty) (auto simp: plainElem_def)
  with Cons show ?thesis
    by (cases "joinWith ''/'' es") (auto simp: rootedPath_def)
qed

lemma backtrack_rootedPath:
  assumes "\<forall>e\<in>set es. plainElem e" and "es \<noteq> []"
  shows "take (backtrackTo (rootedPath es) 1 (length (rootedPath es) - 1)) (rootedPath es)
           = rootedPath (butlast es)"
proof -
  obtain bs e where es: "es = bs @ [e]"
    using assms(2) by (metis append_butlast_last_id)
  with assms(1) have e: "e \<noteq> []" "CHR ''/'' \<notin> set e"
    by (auto simp: plainElem_def)
  show ?thesis
  proof (cases "bs = []")
    case True
    then have out: "rootedPath es = CHR ''/'' # e"
      by (simp add: es rootedPath_def)
    have "backtrackTo (CHR ''/'' # e) 1 (1 + (length e - 1)) = 1"
    proof (rule backtrackTo_stops)
      show "\<forall>i. 1 < i \<and> i \<le> 1 + (length e - 1) \<longrightarrow> (CHR ''/'' # e) ! i \<noteq> CHR ''/''"
      proof (intro allI impI)
        fix i assume i: "1 < i \<and> i \<le> 1 + (length e - 1)"
        then have "(CHR ''/'' # e) ! i = e ! (i - 1)" and "i - 1 < length e"
          using e(1) by (auto simp: nth_Cons')
        with e(2) show "(CHR ''/'' # e) ! i \<noteq> CHR ''/''"
          by (metis nth_mem)
      qed
    qed simp_all
    moreover have "length (CHR ''/'' # e) - 1 = 1 + (length e - 1)"
      using e(1) by (cases e) simp_all
    ultimately have "backtrackTo (CHR ''/'' # e) 1 (length (CHR ''/'' # e) - 1) = 1"
      by (simp only:)
    then have "take (backtrackTo (rootedPath es) 1 (length (rootedPath es) - 1)) (rootedPath es)
        = take 1 (CHR ''/'' # e)"
      by (simp only: out)
    also have "\<dots> = rootedPath []"
      by (simp add: rootedPath_def)
    also have "[] = butlast es"
      using True by (simp add: es)
    finally show ?thesis .
  next
    case False
    let ?P = "rootedPath bs"
    have out: "rootedPath es = ?P @ CHR ''/'' # e"
      using False by (simp add: es rootedPath_def joinWith_snoc)
    have "backtrackTo (?P @ CHR ''/'' # e) 1 (length ?P + length e) = length ?P"
    proof (rule backtrackTo_stops)
      show "\<forall>i. length ?P < i \<and> i \<le> length ?P + length e \<longrightarrow> (?P @ CHR ''/'' # e) ! i \<noteq> CHR ''/''"
      proof (intro allI impI)
        fix i assume i: "length ?P < i \<and> i \<le> length ?P + length e"
        then have "(?P @ CHR ''/'' # e) ! i = e ! (i - length ?P - 1)"
          and "i - length ?P - 1 < length e"
          by (auto simp: nth_append nth_Cons')
        with e(2) show "(?P @ CHR ''/'' # e) ! i \<noteq> CHR ''/''"
          by (metis nth_mem)
      qed
      show "1 \<le> length ?P"
        by (simp add: rootedPath_def)
      show "length ?P = 1 \<or> (?P @ CHR ''/'' # e) ! length ?P = CHR ''/''"
        by simp
    qed
    moreover have "length (?P @ CHR ''/'' # e) - 1 = length ?P + length e"
      by simp
    ultimately have "backtrackTo (?P @ CHR ''/'' # e) 1 (length (?P @ CHR ''/'' # e) - 1)
        = length ?P"
      by (simp only:)
    then have "take (backtrackTo (rootedPath es) 1 (length (rootedPath es) - 1)) (rootedPath es)
        = take (length ?P) (?P @ CHR ''/'' # e)"
      by (simp only: out)
    also have "\<dots> = ?P"
      by simp
    also have "bs = butlast es"
      by (simp add: es)
    finally show ?thesis .
  qed
qed


lemma rootedPath_snoc:
  "rootedPath (es @ [e]) = (if length (rootedPath es) \<noteq> 1 then rootedPath es @ ''/'' else rootedPath es) @ e"
  if "\<forall>x\<in>set es. plainElem x"
proof (cases "es = []")
  case True
  then show ?thesis by (simp add: rootedPath_def)
next
  case False
  with that have "1 < length (rootedPath es)"
    using rootedPath_length [of es] by simp
  with False show ?thesis
    by (simp add: rootedPath_def joinWith_snoc)
qed

lemma element_plain:
  assumes "c \<noteq> CHR ''/''"
    and "\<not> (c = CHR ''.'' \<and> cs \<noteq> [] \<and> hd cs = CHR ''.''
            \<and> (tl cs = [] \<or> hd (tl cs) = CHR ''/''))"
  shows "plainElem (c # takeWhile (\<lambda>x. x \<noteq> CHR ''/'') cs)"
proof -
  have "c # takeWhile (\<lambda>x. x \<noteq> CHR ''/'') cs \<noteq> ''..''"
  proof
    assume eq: "c # takeWhile (\<lambda>x. x \<noteq> CHR ''/'') cs = ''..''"
    then have c: "c = CHR ''.''" and tw: "takeWhile (\<lambda>x. x \<noteq> CHR ''/'') cs = ''.''"
      by simp_all
    from tw obtain cs' where cs: "cs = CHR ''.'' # cs'"
      by (cases cs) (auto split: if_splits)
    with tw have "takeWhile (\<lambda>x. x \<noteq> CHR ''/'') cs' = []"
      by simp
    then have "cs' = [] \<or> hd cs' = CHR ''/''"
      by (cases cs') (auto split: if_splits)
    with c cs assms(2) show False
      by simp
  qed
  moreover have "CHR ''/'' \<notin> set (takeWhile (\<lambda>x. x \<noteq> CHR ''/'') cs)"
    by (auto dest: set_takeWhileD)
  ultimately show ?thesis
    using assms(1) by (simp add: plainElem_def)
qed

lemma branch1: "A \<Longrightarrow> (if A then x else y) = x"
  by simp

lemma branch2: "\<not> A \<Longrightarrow> B \<Longrightarrow> (if A then x else if B then y else z) = y"
  by simp

lemma branch3_back:
  "\<not> A \<Longrightarrow> \<not> B \<Longrightarrow> C \<Longrightarrow> D \<Longrightarrow>
   (if A then x else if B then y else if C then (if D then u else v) else z) = u"
  by simp

lemma branch3_keep:
  "\<not> A \<Longrightarrow> \<not> B \<Longrightarrow> C \<Longrightarrow> \<not> D \<Longrightarrow> \<not> E \<Longrightarrow>
   (if A then x else if B then y else if C then (if D then u else if E then v else w) else z) = w"
  by simp

lemma branch4:
  "\<not> A \<Longrightarrow> \<not> B \<Longrightarrow> \<not> C \<Longrightarrow> (if A then x else if B then y else if C then u else z) = z"
  by simp

text \<open>
  \<open>Clean\<close> of a rooted path: while the loop runs, the buffer is the separator followed by
  elements, joined by separators, that are not empty, hold no separator and are not \<open>..\<close>.
\<close>

lemma cleanLoop_rooted:
  "rooted \<Longrightarrow> dotdot = 1 \<Longrightarrow> out = rootedPath es \<Longrightarrow> \<forall>e\<in>set es. plainElem e \<Longrightarrow>
   \<exists>es'. cleanLoop rooted path out dotdot = rootedPath es' \<and> (\<forall>e\<in>set es'. plainElem e)"
proof (induction rooted path out dotdot arbitrary: es rule: cleanLoop.induct)
  case (1 rooted out dotdot)
  then show ?case
    by (auto simp: cleanLoop.simps(1))
next
  case (2 rooted c cs out dotdot)
  note inv = "2.prems"
  show ?case
  proof (cases "c = CHR ''/''")
    case True
    then have "cleanLoop rooted (c # cs) out dotdot = cleanLoop rooted cs out dotdot"
      by (subst cleanLoop.simps(2)) (rule branch1)
    with "2.IH"(1) [OF True inv] show ?thesis
      by simp
  next
    case notsep: False
    show ?thesis
    proof (cases "c = CHR ''.'' \<and> (cs = [] \<or> hd cs = CHR ''/'')")
      case True
      with notsep have "cleanLoop rooted (c # cs) out dotdot = cleanLoop rooted cs out dotdot"
        by (subst cleanLoop.simps(2)) (rule branch2)
      with "2.IH"(2) [OF notsep True inv] show ?thesis
        by simp
    next
      case notdot: False
      show ?thesis
      proof (cases "c = CHR ''.'' \<and> cs \<noteq> [] \<and> hd cs = CHR ''.''
                      \<and> (tl cs = [] \<or> hd (tl cs) = CHR ''/'')")
        case dotdot: True
        show ?thesis
        proof (cases "length out > dotdot")
          case can: True
          have step: "cleanLoop rooted (c # cs) out dotdot
              = cleanLoop rooted (tl cs) (take (backtrackTo out dotdot (length out - 1)) out) dotdot"
            by (subst cleanLoop.simps(2)) (rule branch3_back [OF notsep notdot dotdot can])
          from can inv have ne: "es \<noteq> []"
            using rootedPath_length [of es] by simp
          with inv have "take (backtrackTo out dotdot (length out - 1)) out = rootedPath (butlast es)"
            using backtrack_rootedPath [of es] by simp
          moreover from inv have "\<forall>e\<in>set (butlast es). plainElem e"
            by (auto dest: in_set_butlastD)
          ultimately show ?thesis
            using "2.IH"(3) [OF notsep notdot dotdot can inv(1,2)] step by simp
        next
          case cannot: False
          have isrooted: "\<not> \<not> rooted"
            using inv(1) by simp
          have step: "cleanLoop rooted (c # cs) out dotdot = cleanLoop rooted (tl cs) out dotdot"
            by (subst cleanLoop.simps(2))
               (rule branch3_keep [OF notsep notdot dotdot cannot isrooted])
          from "2.IH"(5) [OF notsep notdot dotdot cannot isrooted inv] step show ?thesis
            by simp
        qed
      next
        case plain: False
        let ?elem = "c # takeWhile (\<lambda>x. x \<noteq> CHR ''/'') cs"
        let ?out = "(if (rooted \<and> length out \<noteq> 1) \<or> (\<not> rooted \<and> length out \<noteq> 0)
                     then out @ ''/'' else out) @ ?elem"
        have step: "cleanLoop rooted (c # cs) out dotdot
            = cleanLoop rooted (dropWhile (\<lambda>x. x \<noteq> CHR ''/'') cs) ?out dotdot"
          by (subst cleanLoop.simps(2)) (rule branch4 [OF notsep notdot plain])
        have elem: "plainElem ?elem"
          using notsep plain by (rule element_plain)
        have "?out = rootedPath (es @ [?elem])"
          using inv rootedPath_snoc [of es ?elem] by simp
        moreover from inv elem have "\<forall>e\<in>set (es @ [?elem]). plainElem e"
          by simp
        ultimately show ?thesis
          using "2.IH"(6) [OF notsep notdot plain inv(1,2)] step by simp
      qed
    qed
  qed
qed

lemma Clean_rooted:
  assumes "HasPrefix path ''/''"
  shows "\<exists>es. Clean path = rootedPath es \<and> (\<forall>e\<in>set es. plainElem e)"
proof -
  from assms obtain rest where path: "path = CHR ''/'' # rest"
    by (cases path) (auto simp: HasPrefix_def)
  have "\<exists>es'. cleanLoop True rest ''/'' 1 = rootedPath es' \<and> (\<forall>e\<in>set es'. plainElem e)"
    by (rule cleanLoop_rooted [where es = "[]"]) (simp_all add: rootedPath_def)
  then obtain es where es: "cleanLoop True rest ''/'' 1 = rootedPath es" "\<forall>e\<in>set es. plainElem e"
    by blast
  have "rootedPath es \<noteq> []"
    by (simp add: rootedPath_def)
  with es path have "Clean path = rootedPath es"
    by (simp add: Clean_def)
  with es(2) show ?thesis
    by blast
qed


lemma relLoop_elem:
  "fst (relLoop b t) = [] \<or> fst (relLoop b t) = takeWhile (\<lambda>x. x \<noteq> CHR ''/'') b
   \<or> fst (relLoop b t) = fst (relLoop (afterElem b) (afterElem t))"
  by (subst (1 2 3) relLoop.simps) simp

lemma plainElem_takeWhile:
  assumes "plainElem e"
  shows "takeWhile (\<lambda>x. x \<noteq> CHR ''/'') (e @ CHR ''/'' # rest) = e"
    and "afterElem (e @ CHR ''/'' # rest) = rest"
    and "takeWhile (\<lambda>x. x \<noteq> CHR ''/'') e = e"
    and "afterElem e = []"
proof -
  from assms have all: "\<And>x. x \<in> set e \<Longrightarrow> x \<noteq> CHR ''/''"
    by (auto simp: plainElem_def)
  then show "takeWhile (\<lambda>x. x \<noteq> CHR ''/'') (e @ CHR ''/'' # rest) = e"
    by (simp add: takeWhile_append2)
  from all have "dropWhile (\<lambda>x. x \<noteq> CHR ''/'') (e @ CHR ''/'' # rest) = CHR ''/'' # rest"
    by (simp add: dropWhile_append2)
  then show "afterElem (e @ CHR ''/'' # rest) = rest"
    by (simp add: afterElem_def)
  from all show "takeWhile (\<lambda>x. x \<noteq> CHR ''/'') e = e"
    by (simp add: takeWhile_eq_all_conv)
  from all have "dropWhile (\<lambda>x. x \<noteq> CHR ''/'') e = []"
    by (simp add: dropWhile_eq_Nil_conv)
  then show "afterElem e = []"
    by (simp add: afterElem_def)
qed

lemma relLoop_Nil: "relLoop [] t = ([], [], t)"
  by (subst relLoop.simps) simp

lemma relLoop_joined:
  "\<forall>e\<in>set es. plainElem e \<Longrightarrow> fst (relLoop (joinWith ''/'' es) t) \<noteq> ''..''"
proof (induction "''/''" es arbitrary: t rule: joinWith.induct)
  case 1
  show ?case by (simp add: relLoop_Nil)
next
  case (2 e)
  then have e: "plainElem e" by simp
  then have "e \<noteq> ''..''" by (simp add: plainElem_def)
  with relLoop_elem [of e t] show ?case
    by (auto simp: plainElem_takeWhile [OF e] relLoop_Nil)
next
  case (3 e e' es)
  then have e: "plainElem e" by simp
  then have ne: "e \<noteq> ''..''" by (simp add: plainElem_def)
  from 3 have "fst (relLoop (joinWith ''/'' (e' # es)) (afterElem t)) \<noteq> ''..''"
    by simp
  with relLoop_elem [of "joinWith ''/'' (e # e' # es)" t] ne show ?case
    by (auto simp: plainElem_takeWhile [OF e])
qed

lemma relLoop_rooted:
  assumes "\<forall>e\<in>set es. plainElem e"
  shows "fst (relLoop (rootedPath es) t) \<noteq> ''..''"
proof -
  have "afterElem (rootedPath es) = joinWith ''/'' es"
    by (simp add: rootedPath_def afterElem_def)
  moreover have "takeWhile (\<lambda>x. x \<noteq> CHR ''/'') (rootedPath es) = []"
    by (simp add: rootedPath_def)
  ultimately show ?thesis
    using relLoop_elem [of "rootedPath es" t] relLoop_joined [OF assms, of "afterElem t"]
    by auto
qed

text \<open>\<open>Rel\<close> returns no error for a rooted base and a rooted target.\<close>

lemma Rel_rooted:
  assumes "HasPrefix basepath ''/''" and "HasPrefix targpath ''/''"
  shows "\<exists>rel. Rel basepath targpath = Inr rel"
proof -
  from assms(1) obtain es where base: "Clean basepath = rootedPath es" "\<forall>e\<in>set es. plainElem e"
    using Clean_rooted by blast
  from assms(2) obtain ts where targ: "Clean targpath = rootedPath ts"
    using Clean_rooted by blast
  obtain elem brest trest where loop: "relLoop (rootedPath es) (rootedPath ts) = (elem, brest, trest)"
    by (cases "relLoop (rootedPath es) (rootedPath ts)")
  with relLoop_rooted [OF base(2), of "rootedPath ts"] have "elem \<noteq> ''..''"
    by simp
  moreover have "rootedPath es \<noteq> ''.''" "hd (rootedPath es) = CHR ''/''" "hd (rootedPath ts) = CHR ''/''"
    "rootedPath es \<noteq> []" "rootedPath ts \<noteq> []"
    by (simp_all add: rootedPath_def)
  ultimately show ?thesis
    by (simp add: Rel_def base(1) targ loop Let_def)
qed

section \<open>The cached variables of the runtime\<close>

lemma getPrefix_fresh:
  "\<not> prefixOnce v \<Longrightarrow>
   getPrefix Prefix rt v
     = (discoverPrefix Prefix rt, v\<lparr>installPrefix := discoverPrefix Prefix rt, prefixOnce := True\<rparr>)"
  by (simp add: getPrefix_def)

lemma getPrefix_cached: "prefixOnce v \<Longrightarrow> getPrefix Prefix rt v = (installPrefix v, v)"
  by (simp add: getPrefix_def)

lemma getPrefix_vars:
  "prefixOnce (snd (getPrefix Prefix rt v))"
  "installPrefix (snd (getPrefix Prefix rt v)) = fst (getPrefix Prefix rt v)"
  "isSuidOnce (snd (getPrefix Prefix rt v)) = isSuidOnce v"
  "suidInstall (snd (getPrefix Prefix rt v)) = suidInstall v"
  by (simp_all add: getPrefix_def)

text \<open>
  Once \<open>getPrefix\<close> has run, a later call returns the same prefix and changes nothing,
  whatever the operating system answers then.
\<close>

lemma getPrefix_again:
  "getPrefix Prefix rt' (snd (getPrefix Prefix rt v))
     = (fst (getPrefix Prefix rt v), snd (getPrefix Prefix rt v))"
  by (simp add: getPrefix_cached getPrefix_vars)

lemma isSuidInstall_cached: "isSuidOnce v \<Longrightarrow> isSuidInstall Prefix rt v = (suidInstall v, v)"
  by (simp add: isSuidInstall_def)

lemma isSuidInstall_vars:
  "isSuidOnce (snd (isSuidInstall Prefix rt v))"
  "suidInstall (snd (isSuidInstall Prefix rt v)) = fst (isSuidInstall Prefix rt v)"
  by (simp_all add: isSuidInstall_def Let_def split: prod.splits)

lemma isSuidInstall_again:
  "isSuidInstall Prefix rt' (snd (isSuidInstall Prefix rt v))
     = (fst (isSuidInstall Prefix rt v), snd (isSuidInstall Prefix rt v))"
  by (simp add: isSuidInstall_cached isSuidInstall_vars)

lemma isSuidInstall_after_getPrefix:
  "fst (isSuidInstall Prefix rt (snd (getPrefix Prefix rt v))) = fst (isSuidInstall Prefix rt v)"
proof (cases "isSuidOnce v")
  case True
  then show ?thesis
    by (simp add: isSuidInstall_cached getPrefix_vars)
next
  case False
  then show ?thesis
    by (simp add: isSuidInstall_def getPrefix_again getPrefix_vars Let_def split: prod.splits)
qed

lemma relocatePath_fst:
  "fst (relocatePath Prefix rt v original) =
     (if Prefix = [] \<or> Prefix = ''/'' then Inr original
      else if \<not> HasPrefix original Prefix \<and> \<not> HasPrefix original ''/etc/apptainer''
              \<and> \<not> HasPrefix original ''/var/apptainer''
      then Inr original
      else if fst (getPrefix Prefix rt v) = Prefix then Inr original
      else if fst (isSuidInstall Prefix rt v) = 1
      then Inl ''Relocation not allowed with starter-suid''
      else (case Rel (if HasPrefix original Prefix then Prefix else ''/'') original of
              Inl err \<Rightarrow> Inl err
            | Inr relativePath \<Rightarrow> Inr (Join [fst (getPrefix Prefix rt v), relativePath])))"
proof -
  obtain prefix v1 where g: "getPrefix Prefix rt v = (prefix, v1)"
    by (cases "getPrefix Prefix rt v")
  obtain suid v2 where s: "isSuidInstall Prefix rt v1 = (suid, v2)"
    by (cases "isSuidInstall Prefix rt v1")
  have "suid = fst (isSuidInstall Prefix rt v)"
    using isSuidInstall_after_getPrefix [of Prefix rt v] g s by simp
  with g s show ?thesis
    by (auto simp: relocatePath_def Let_def split: sum.splits)
qed

section \<open>Prefix discovery\<close>

text \<open>
  Claim C3.  When prefix discovery runs (the variables do not hold a prefix yet): if the
  base name of the executable is \<open>apptainer\<close>, the installation prefix is the parent of the
  executable's directory; if it is \<open>starter\<close> or \<open>starter-suid\<close>, the installation prefix
  is three levels above the executable's directory; for any other base name, and when
  \<open>os.Executable\<close> fails, it is the build-time prefix.
\<close>

theorem getPrefix_discovery:
  assumes "\<not> prefixOnce v"
  shows "(executable rt = Inr exe \<and> Base exe = ''apptainer'' \<longrightarrow>
            fst (getPrefix Prefix rt v) = Dir (Dir exe))
       \<and> (executable rt = Inr exe \<and> (Base exe = ''starter'' \<or> Base exe = ''starter-suid'') \<longrightarrow>
            fst (getPrefix Prefix rt v) = Dir (Dir (Dir (Dir exe))))
       \<and> (executable rt = Inr exe \<and> Base exe \<noteq> ''apptainer'' \<and> Base exe \<noteq> ''starter''
            \<and> Base exe \<noteq> ''starter-suid'' \<longrightarrow>
            fst (getPrefix Prefix rt v) = Prefix)
       \<and> (executable rt = Inl err \<longrightarrow> fst (getPrefix Prefix rt v) = Prefix)"
  using assms by (simp add: getPrefix_fresh discoverPrefix_def Let_def)

theorem getPrefix_discovery_witness:
  "fst (getPrefix ''/usr'' (installedAt ''/opt/app'' False) initialVars) = ''/opt/app''
   \<and> fst (getPrefix ''/usr''
            \<lparr>executable = Inr ''/opt/app/libexec/apptainer/bin/starter-suid'', statOK = (\<lambda>path. True)\<rparr>
            initialVars) = ''/opt/app''
   \<and> fst (getPrefix ''/usr''
            \<lparr>executable = Inr ''/opt/app/libexec/apptainer/bin/starter'', statOK = (\<lambda>path. True)\<rparr>
            initialVars) = ''/opt/app''
   \<and> fst (getPrefix ''/usr''
            \<lparr>executable = Inr ''/opt/app/bin/run-singularity'', statOK = (\<lambda>path. True)\<rparr>
            initialVars) = ''/usr''
   \<and> fst (getPrefix ''/usr''
            \<lparr>executable = Inl ''readlink /proc/self/exe: permission denied'', statOK = (\<lambda>path. True)\<rparr>
            initialVars) = ''/usr''"
proof -
  let ?suid = "\<lparr>executable = Inr ''/opt/app/libexec/apptainer/bin/starter-suid'', statOK = (\<lambda>path. True)\<rparr>"
  let ?starter = "\<lparr>executable = Inr ''/opt/app/libexec/apptainer/bin/starter'', statOK = (\<lambda>path. True)\<rparr>"
  let ?other = "\<lparr>executable = Inr ''/opt/app/bin/run-singularity'', statOK = (\<lambda>path. True)\<rparr>"
  let ?failed = "\<lparr>executable = Inl ''readlink /proc/self/exe: permission denied'', statOK = (\<lambda>path. True)\<rparr>"
  have fresh: "\<not> prefixOnce initialVars"
    by (simp add: initialVars_def)
  have b1: "Base ''/opt/app/bin/apptainer'' = ''apptainer''"
    and b2: "Base ''/opt/app/libexec/apptainer/bin/starter-suid'' = ''starter-suid''"
    and b3: "Base ''/opt/app/libexec/apptainer/bin/starter'' = ''starter''"
    and b4: "Base ''/opt/app/bin/run-singularity'' = ''run-singularity''"
    by code_simp+
  have d1: "Dir (Dir ''/opt/app/bin/apptainer'') = ''/opt/app''"
    and d2: "Dir (Dir (Dir (Dir ''/opt/app/libexec/apptainer/bin/starter-suid''))) = ''/opt/app''"
    and d3: "Dir (Dir (Dir (Dir ''/opt/app/libexec/apptainer/bin/starter''))) = ''/opt/app''"
    by code_simp+
  have "fst (getPrefix ''/usr'' (installedAt ''/opt/app'' False) initialVars) = ''/opt/app''"
    using getPrefix_discovery [OF fresh, of "installedAt ''/opt/app'' False" "''/opt/app/bin/apptainer''" "''/usr''"]
    by (simp add: installedAt_def b1 d1)
  moreover have "fst (getPrefix ''/usr'' ?suid initialVars) = ''/opt/app''"
    using getPrefix_discovery [OF fresh, of ?suid "''/opt/app/libexec/apptainer/bin/starter-suid''" "''/usr''"]
    by (simp add: b2 d2)
  moreover have "fst (getPrefix ''/usr'' ?starter initialVars) = ''/opt/app''"
    using getPrefix_discovery [OF fresh, of ?starter "''/opt/app/libexec/apptainer/bin/starter''" "''/usr''"]
    by (simp add: b3 d3)
  moreover have "fst (getPrefix ''/usr'' ?other initialVars) = ''/usr''"
    using getPrefix_discovery [OF fresh, of ?other "''/opt/app/bin/run-singularity''" "''/usr''"]
    by (simp add: b4)
  moreover have "fst (getPrefix ''/usr'' ?failed initialVars) = ''/usr''"
    using getPrefix_discovery [OF fresh, of ?failed _ "''/usr''" "''readlink /proc/self/exe: permission denied''"]
    by simp
  ultimately show ?thesis
    by simp
qed

section \<open>Path relocation\<close>

text \<open>
  Claim C1, as amended.  For every call of \<open>relocatePath\<close> with a build-time prefix that
  is neither empty nor \<open>/\<close> and a path that starts with the build-time prefix, with
  \<open>/etc/apptainer\<close> or with \<open>/var/apptainer\<close>: when the discovered installation prefix
  differs from the build-time prefix and suid-install detection reports 1, the call ends
  in \<open>sylog.Fatalf("Relocation not allowed with starter-suid")\<close> and returns no path.
\<close>

theorem relocatePath_suid_refused:
  assumes "Prefix \<noteq> []" and "Prefix \<noteq> ''/''"
    and "HasPrefix original Prefix \<or> HasPrefix original ''/etc/apptainer''
         \<or> HasPrefix original ''/var/apptainer''"
    and "fst (getPrefix Prefix rt v) \<noteq> Prefix"
    and "fst (isSuidInstall Prefix rt v) = 1"
  shows "fst (relocatePath Prefix rt v original) = Inl ''Relocation not allowed with starter-suid''"
  using assms by (auto simp: relocatePath_fst)

theorem relocatePath_suid_refused_witness:
  "fst (relocatePath ''/usr'' (installedAt ''/opt/app'' True) initialVars ''/usr/bin'')
     = Inl ''Relocation not allowed with starter-suid''
   \<and> fst (relocatePath ''/usr'' (installedAt ''/opt/app'' True) initialVars
            ''/etc/apptainer/apptainer.conf'')
     = Inl ''Relocation not allowed with starter-suid''"
proof -
  let ?rt = "installedAt ''/opt/app'' True"
  have p: "''/usr'' \<noteq> []" "''/usr'' \<noteq> ''/''"
    by simp_all
  have o1: "HasPrefix ''/usr/bin'' ''/usr'' \<or> HasPrefix ''/usr/bin'' ''/etc/apptainer''
            \<or> HasPrefix ''/usr/bin'' ''/var/apptainer''"
    by (simp add: HasPrefix_def)
  have o2: "HasPrefix ''/etc/apptainer/apptainer.conf'' ''/usr''
            \<or> HasPrefix ''/etc/apptainer/apptainer.conf'' ''/etc/apptainer''
            \<or> HasPrefix ''/etc/apptainer/apptainer.conf'' ''/var/apptainer''"
    by (simp add: HasPrefix_def)
  have g: "fst (getPrefix ''/usr'' ?rt initialVars) \<noteq> ''/usr''"
    by code_simp
  have s: "fst (isSuidInstall ''/usr'' ?rt initialVars) = 1"
    by code_simp
  from relocatePath_suid_refused [OF p o1 g s] relocatePath_suid_refused [OF p o2 g s]
  show ?thesis
    by simp
qed

text \<open>
  The claim as stated, for every call, fails: with the build-time prefix \<open>/usr\<close>, the
  program installed under \<open>/opt/app\<close> and a \<open>starter-suid\<close> present there, the path
  \<open>/var/lib/apptainer/mnt/session\<close> starts with none of the three prefixes and is returned
  unchanged.
\<close>

theorem relocatePath_suid_returns_counterexample:
  "fst (getPrefix ''/usr'' (installedAt ''/opt/app'' True) initialVars) = ''/opt/app''
   \<and> ''/opt/app'' \<noteq> ''/usr''
   \<and> fst (isSuidInstall ''/usr'' (installedAt ''/opt/app'' True) initialVars) = 1
   \<and> fst (relocatePath ''/usr'' (installedAt ''/opt/app'' True) initialVars
            ''/var/lib/apptainer/mnt/session'')
     = Inr ''/var/lib/apptainer/mnt/session''"
  by code_simp

text \<open>
  Claim C2, as amended.  \<open>relocatePath\<close> returns \<open>original\<close> unchanged when the build-time
  prefix is empty or \<open>/\<close>, when \<open>original\<close> starts with neither the build-time prefix nor
  \<open>/etc/apptainer\<close> nor \<open>/var/apptainer\<close>, or when the discovered prefix equals the
  build-time prefix.  Otherwise it ends in \<open>sylog.Fatalf\<close> when suid-install detection
  reports 1; and else it takes the path of \<open>original\<close> relative to the build-time prefix
  when \<open>original\<close> starts with it, and relative to \<open>/\<close> when it does not (it then starts
  with one of the two other roots), and returns the join of the discovered prefix with
  that relative path.  For a build-time prefix that starts with \<open>/\<close> the relative path
  always exists; for another prefix \<open>filepath.Rel\<close> can return an error, and the call then
  ends in \<open>sylog.Fatalf\<close> with it.
\<close>

theorem relocatePath_result:
  "fst (relocatePath Prefix rt v original) =
     (if Prefix = [] \<or> Prefix = ''/'' then Inr original
      else if \<not> HasPrefix original Prefix \<and> \<not> HasPrefix original ''/etc/apptainer''
              \<and> \<not> HasPrefix original ''/var/apptainer''
      then Inr original
      else if fst (getPrefix Prefix rt v) = Prefix then Inr original
      else if fst (isSuidInstall Prefix rt v) = 1
      then Inl ''Relocation not allowed with starter-suid''
      else (case Rel (if HasPrefix original Prefix then Prefix else ''/'') original of
              Inl err \<Rightarrow> Inl err
            | Inr relativePath \<Rightarrow> Inr (Join [fst (getPrefix Prefix rt v), relativePath])))
   \<and> (HasPrefix Prefix ''/''
        \<and> (HasPrefix original Prefix \<or> HasPrefix original ''/etc/apptainer''
             \<or> HasPrefix original ''/var/apptainer'') \<longrightarrow>
        (\<exists>relativePath.
            Rel (if HasPrefix original Prefix then Prefix else ''/'') original = Inr relativePath))"
proof -
  have rel: "\<exists>relativePath.
            Rel (if HasPrefix original Prefix then Prefix else ''/'') original = Inr relativePath"
    if rooted: "HasPrefix Prefix ''/''"
      and domain: "HasPrefix original Prefix \<or> HasPrefix original ''/etc/apptainer''
                   \<or> HasPrefix original ''/var/apptainer''"
  proof -
    from rooted obtain p where p: "Prefix = ''/'' @ p"
      by (auto simp: HasPrefix_iff_append)
    from domain have "\<exists>r. original = ''/'' @ r"
    proof (elim disjE)
      assume "HasPrefix original Prefix"
      then obtain r where "original = Prefix @ r"
        by (auto simp: HasPrefix_iff_append)
      with p have "original = ''/'' @ (p @ r)" by simp
      then show ?thesis ..
    next
      assume "HasPrefix original ''/etc/apptainer''"
      then obtain r where "original = ''/etc/apptainer'' @ r"
        by (auto simp: HasPrefix_iff_append)
      then have "original = ''/'' @ (''etc/apptainer'' @ r)" by simp
      then show ?thesis ..
    next
      assume "HasPrefix original ''/var/apptainer''"
      then obtain r where "original = ''/var/apptainer'' @ r"
        by (auto simp: HasPrefix_iff_append)
      then have "original = ''/'' @ (''var/apptainer'' @ r)" by simp
      then show ?thesis ..
    qed
    then have target: "HasPrefix original ''/''"
      by (simp only: HasPrefix_iff_append)
    have root: "HasPrefix ''/'' ''/''"
      by (simp add: HasPrefix_def)
    show ?thesis
    proof (cases "HasPrefix original Prefix")
      case True
      with Rel_rooted [OF rooted target] show ?thesis by simp
    next
      case False
      with Rel_rooted [OF root target] show ?thesis by simp
    qed
  qed
  with relocatePath_fst [of Prefix rt v original] show ?thesis
    by blast
qed

theorem relocatePath_result_witness:
  "fst (relocatePath ''/usr'' (installedAt ''/opt/app'' False) initialVars ''/usr/bin'')
     = Inr ''/opt/app/bin''
   \<and> fst (relocatePath ''/usr'' (installedAt ''/opt/app'' False) initialVars
            ''/etc/apptainer/apptainer.conf'')
     = Inr ''/opt/app/etc/apptainer/apptainer.conf''
   \<and> fst (relocatePath ''/usr'' (installedAt ''/opt/app'' False) initialVars ''/home/user'')
     = Inr ''/home/user''
   \<and> fst (relocatePath ''/usr'' (installedAt ''/usr'' False) initialVars ''/usr/bin'')
     = Inr ''/usr/bin''
   \<and> fst (relocatePath ''/'' (installedAt ''/opt/app'' False) initialVars ''/etc/apptainer'')
     = Inr ''/etc/apptainer''
   \<and> (\<exists>relativePath. Rel ''/usr'' ''/usr/../usr/lib/x86_64/..'' = Inr relativePath)"
proof -
  let ?moved = "installedAt ''/opt/app'' False"
  let ?inplace = "installedAt ''/usr'' False"
  note result = relocatePath_result [THEN conjunct1]
  have g: "fst (getPrefix ''/usr'' ?moved initialVars) = ''/opt/app''"
    and s: "fst (isSuidInstall ''/usr'' ?moved initialVars) = 0"
    and g': "fst (getPrefix ''/usr'' ?inplace initialVars) = ''/usr''"
    by code_simp+
  have r1: "Rel ''/usr'' ''/usr/bin'' = Inr ''bin''"
    and r2: "Rel ''/'' ''/etc/apptainer/apptainer.conf'' = Inr ''etc/apptainer/apptainer.conf''"
    by code_simp+
  have j1: "Join [''/opt/app'', ''bin''] = ''/opt/app/bin''"
    and j2: "Join [''/opt/app'', ''etc/apptainer/apptainer.conf'']
             = ''/opt/app/etc/apptainer/apptainer.conf''"
    by code_simp+
  have "fst (relocatePath ''/usr'' ?moved initialVars ''/usr/bin'') = Inr ''/opt/app/bin''"
    using result [of "''/usr''" ?moved initialVars "''/usr/bin''"]
    by (simp add: g s r1 j1 HasPrefix_def del: Join.simps)
  moreover have "fst (relocatePath ''/usr'' ?moved initialVars ''/etc/apptainer/apptainer.conf'')
      = Inr ''/opt/app/etc/apptainer/apptainer.conf''"
    using result [of "''/usr''" ?moved initialVars "''/etc/apptainer/apptainer.conf''"]
    by (simp add: g s r2 j2 HasPrefix_def del: Join.simps)
  moreover have "fst (relocatePath ''/usr'' ?moved initialVars ''/home/user'') = Inr ''/home/user''"
    using result [of "''/usr''" ?moved initialVars "''/home/user''"]
    by (simp add: HasPrefix_def)
  moreover have "fst (relocatePath ''/usr'' ?inplace initialVars ''/usr/bin'') = Inr ''/usr/bin''"
    using result [of "''/usr''" ?inplace initialVars "''/usr/bin''"]
    by (simp add: g' HasPrefix_def)
  moreover have "fst (relocatePath ''/'' ?moved initialVars ''/etc/apptainer'') = Inr ''/etc/apptainer''"
    using result [of "''/''" ?moved initialVars "''/etc/apptainer''"]
    by simp
  moreover have "\<exists>relativePath. Rel ''/usr'' ''/usr/../usr/lib/x86_64/..'' = Inr relativePath"
    using relocatePath_result [THEN conjunct2, of "''/usr''" "''/usr/../usr/lib/x86_64/..''"]
    by (simp add: HasPrefix_def)
  ultimately show ?thesis
    by simp
qed

text \<open>
  The claim as stated has the join returned in every remaining case, with the path
  taken relative to \<open>/\<close> for the two special roots.  Both fail.  The header lines
  \<open>#define PREFIX ".."\<close> and \<open>#define BINDIR "..a"\<close> make the generator write the prefix
  \<open>..\<close> and the declaration \<open>var BINDIR = relocatePath("..a")\<close>; in the program installed
  under \<open>/opt/app\<close> without a \<open>starter-suid\<close>, the path \<open>..a\<close> starts with the prefix,
  \<open>filepath.Rel\<close> returns an error and the call ends in \<open>sylog.Fatalf\<close>.  And with the
  build-time prefix \<open>/etc\<close>, the path \<open>/etc/apptainer/apptainer.conf\<close> starts with the
  prefix and with one of the special roots; it is taken relative to the prefix, not to
  \<open>/\<close>, so the result is not the join with \<open>etc/apptainer/apptainer.conf\<close>.
\<close>

theorem relocatePath_join_counterexample:
  "main (sampleWorld [''#define PREFIX '' @ quoted ''..'', ''#define BINDIR '' @ quoted ''..a''])
     = Generated \<lparr>genPrefix = ''..'',
                   genLines = [''const PREFIX = '' @ quoted ''..'',
                               ''var BINDIR = relocatePath('' @ quoted ''..a'' @ '')'']\<rparr>
   \<and> HasPrefix ''..a'' ''..''
   \<and> fst (getPrefix ''..'' (installedAt ''/opt/app'' False) initialVars) = ''/opt/app''
   \<and> fst (isSuidInstall ''..'' (installedAt ''/opt/app'' False) initialVars) = 0
   \<and> fst (relocatePath ''..'' (installedAt ''/opt/app'' False) initialVars ''..a'')
       = Inl ''Rel: can't make ..a relative to ..''
   \<and> HasPrefix ''/etc/apptainer/apptainer.conf'' ''/etc/apptainer''
   \<and> fst (getPrefix ''/etc'' (installedAt ''/opt/app'' False) initialVars) = ''/opt/app''
   \<and> fst (isSuidInstall ''/etc'' (installedAt ''/opt/app'' False) initialVars) = 0
   \<and> Rel ''/'' ''/etc/apptainer/apptainer.conf'' = Inr ''etc/apptainer/apptainer.conf''
   \<and> Join [''/opt/app'', ''etc/apptainer/apptainer.conf''] = ''/opt/app/etc/apptainer/apptainer.conf''
   \<and> fst (relocatePath ''/etc'' (installedAt ''/opt/app'' False) initialVars
            ''/etc/apptainer/apptainer.conf'')
       = Inr ''/opt/app/apptainer/apptainer.conf''"
  by code_simp
end
